theory Spec2Isabelle
  imports Complex_Main "HOL-Library.Sublist"
begin

section \<open>Data model of the dashboard (frontend/static/app.js)\<close>

text \<open>
  JavaScript numbers are idealised as real numbers: no rounding, no NaN, no
  infinities. A numeric property that is absent, null or otherwise falsy is
  \<open>None\<close>; the source reads every such property through
  \<^verbatim>\<open>Number(x || 0)\<close>, which is \<open>Number0\<close> below.
\<close>

definition Number0 :: "real option \<Rightarrow> real" where
  "Number0 v = (case v of None \<Rightarrow> 0 | Some x \<Rightarrow> x)"

text \<open>\<^verbatim>\<open>a || b\<close> on strings: the empty string and a missing property are falsy.\<close>

definition str_or :: "string option \<Rightarrow> string \<Rightarrow> string" where
  "str_or a b = (case a of None \<Rightarrow> b | Some s \<Rightarrow> if s = [] then b else s)"

subsection \<open>Scenario descriptors and the deduplication loop\<close>

datatype source = static_base | static_index | api

text \<open>
  A row of the scenario catalog. The share, status and LCOE properties that
  the source copies verbatim from the index document play no role in any
  branch and are left out.
\<close>

record descriptor =
  row_id :: string
  row_label :: string
  row_source :: source

text \<open>
  Lines 165-174 of app.js. \<open>seen\<close> is the JavaScript \<^verbatim>\<open>Set\<close>,
  \<open>deduped\<close> the output array. \<^verbatim>\<open>String(row.id || "")\<close> is the
  id itself, since it is a string.
\<close>

fun dedup_loop :: "descriptor list \<Rightarrow> string set \<Rightarrow> descriptor list \<Rightarrow> descriptor list" where
  "dedup_loop [] seen deduped = deduped"
| "dedup_loop (row # rows) seen deduped =
     (if row_id row = [] \<or> row_id row \<in> seen then dedup_loop rows seen deduped
      else dedup_loop rows (insert (row_id row) seen) (deduped @ [row]))"

definition dedup :: "descriptor list \<Rightarrow> descriptor list" where
  "dedup rows = dedup_loop rows {} []"

subsection \<open>The sub-range view\<close>

text \<open>
  \<^verbatim>\<open>Array.prototype.slice(start, end)\<close> on integer arguments: a negative
  index counts from the end, and both indices are clamped to the array.
\<close>

definition js_slice :: "'a list \<Rightarrow> int \<Rightarrow> int \<Rightarrow> 'a list" where
  "js_slice xs start fin =
     (let len = int (length xs);
          k = (if start < 0 then max (len + start) 0 else min start len);
          final = (if fin < 0 then max (len + fin) 0 else min fin len)
      in take (nat (final - k)) (drop (nat k) xs))"

text \<open>
  Lines 243-248. The two control values read from the page are parameters,
  as is the global \<^verbatim>\<open>hourly\<close>.
\<close>

definition getWindowedRows :: "'a list \<Rightarrow> int \<Rightarrow> int \<Rightarrow> 'a list" where
  "getWindowedRows hourly_rows windowSize start =
     (let fin = min (int (length hourly_rows)) (start + windowSize)
      in js_slice hourly_rows start fin)"

subsection \<open>Errors\<close>

text \<open>
  A thrown JavaScript exception is a value: \<open>Error\<close> with its message for
  \<^verbatim>\<open>new Error(...)\<close>, \<open>TypeError\<close> for a failed \<^verbatim>\<open>fetch\<close> or a
  property read on null, \<open>SyntaxError\<close> for a body that is not JSON.
\<close>

datatype error = Error string | TypeError string | SyntaxError string

subsection \<open>The daily rollup\<close>

text \<open>
  An hourly row: its timestamp string and its numeric columns by name. The
  rows that \<^verbatim>\<open>aggregateDaily\<close> returns have the same shape.
\<close>

record hourly_row =
  timestamp :: string
  cols :: "string \<rightharpoonup> real"

definition DAILY_SUM_KEYS :: "string list" where
  "DAILY_SUM_KEYS =
     [''demand_mwh'', ''gen_solar_mwh'', ''gen_diesel_mwh'', ''gen_ccgt_mwh'', ''gen_coal_mwh'',
      ''battery_discharge_mwh'', ''battery_charge_mwh'', ''battery_net_mwh'', ''unserved_mwh'']"

text \<open>
  The fresh accumulator object of lines 265-268:
  \<^verbatim>\<open>{ timestamp: dayKey, battery_soc_mwh: 0 }\<close>, then every key of
  \<open>DAILY_SUM_KEYS\<close> set to 0.
\<close>

definition new_acc :: "string \<Rightarrow> hourly_row" where
  "new_acc dayKey =
     \<lparr>timestamp = dayKey,
      cols = fold (\<lambda>key m. m(key \<mapsto> 0)) DAILY_SUM_KEYS [''battery_soc_mwh'' \<mapsto> 0]\<rparr>"

text \<open>
  \<^verbatim>\<open>acc[key] += Number(row[key] || 0)\<close>. The accumulator always holds the
  key (\<open>new_acc\<close> sets it), so the \<open>None\<close> case of reading it does not
  arise.
\<close>

definition add_key :: "hourly_row \<Rightarrow> string \<Rightarrow> (string \<rightharpoonup> real) \<Rightarrow> (string \<rightharpoonup> real)" where
  "add_key row key m = m(key \<mapsto> Number0 (m key) + Number0 (cols row key))"

text \<open>Lines 272-276: the sums, then the state of charge of the current row.\<close>

definition accumulate :: "hourly_row \<Rightarrow> hourly_row \<Rightarrow> hourly_row" where
  "accumulate a row =
     a\<lparr>cols := (fold (add_key row) DAILY_SUM_KEYS (cols a))
                 (''battery_soc_mwh'' \<mapsto> Number0 (cols row ''battery_soc_mwh''))\<rparr>"

text \<open>
  The loop state. \<open>grouped\<close> is the output array; \<open>acc\<close> is a reference
  to the object pushed last, modelled as its index in \<open>grouped\<close>, so that
  a write through \<open>acc\<close> is a write to that element; \<open>None\<close> is null.
\<close>

record agg_state =
  grouped :: "hourly_row list"
  day :: "string option"
  acc :: "nat option"

text \<open>One iteration of the loop of lines 261-277.\<close>

definition agg_step :: "agg_state \<Rightarrow> hourly_row \<Rightarrow> error + agg_state" where
  "agg_step s row =
     (let dayKey = take 10 (timestamp row);
          s1 = (if Some dayKey \<noteq> day s
                then \<lparr>grouped = grouped s @ [new_acc dayKey], day = Some dayKey,
                      acc = Some (length (grouped s))\<rparr>
                else s)
      in case acc s1 of
           None \<Rightarrow> Inl (TypeError ''acc is null'')
         | Some i \<Rightarrow> Inr (s1\<lparr>grouped := (grouped s1)[i := accumulate (grouped s1 ! i) row]\<rparr>))"

text \<open>
  The loop of lines 261-277 over the rows, and the function itself (lines
  254-280), which returns the empty array for an empty input before the loop
  is reached.
\<close>

fun agg_loop :: "hourly_row list \<Rightarrow> agg_state \<Rightarrow> error + agg_state" where
  "agg_loop [] s = Inr s"
| "agg_loop (row # rows) s =
     (case agg_step s row of Inl e \<Rightarrow> Inl e | Inr s' \<Rightarrow> agg_loop rows s')"

definition aggregateDaily :: "hourly_row list \<Rightarrow> error + hourly_row list" where
  "aggregateDaily rows =
     (if rows = [] then Inr []
      else case agg_loop rows \<lparr>grouped = [], day = None, acc = None\<rparr> of
             Inl e \<Rightarrow> Inl e
           | Inr s \<Rightarrow> Inr (grouped s))"

text \<open>
  The rollup in the words of the specification: the maximal runs of
  consecutive rows with the same day prefix, and the total of one run.
\<close>

definition day_prefix :: "hourly_row \<Rightarrow> string" where
  "day_prefix row = take 10 (timestamp row)"

fun day_groups :: "hourly_row list \<Rightarrow> hourly_row list list" where
  "day_groups [] = []"
| "day_groups (r # rs) =
     (case day_groups rs of
        [] \<Rightarrow> [ [r] ]
      | g # gs \<Rightarrow> if day_prefix r = day_prefix (hd g) then (r # g) # gs else [r] # g # gs)"

definition day_total :: "hourly_row list \<Rightarrow> hourly_row" where
  "day_total g =
     \<lparr>timestamp = day_prefix (hd g),
      cols = (\<lambda>k. if k \<in> set DAILY_SUM_KEYS then Some (\<Sum>r\<leftarrow>g. Number0 (cols r k))
                  else if k = ''battery_soc_mwh'' then Some (Number0 (cols (last g) k))
                  else None)\<rparr>"

text \<open>An hourly row with a demand and a state of charge, for the examples.\<close>

definition hour :: "string \<Rightarrow> real \<Rightarrow> real \<Rightarrow> hourly_row" where
  "hour ts demand soc =
     \<lparr>timestamp = ts, cols = [''demand_mwh'' \<mapsto> demand, ''battery_soc_mwh'' \<mapsto> soc]\<rparr>"

subsection \<open>The cost breakdown\<close>

text \<open>
  A cost row of either schema: the detailed one has a \<open>component\<close>
  property (and a technology), the coarse one a \<open>bucket\<close>. A property a
  row does not have is \<open>None\<close>.
\<close>

record cost_row =
  technology :: "string option"
  component :: "string option"
  bucket :: "string option"
  cost_usd :: "real option"

text \<open>
  The summary of a scenario. Only the properties that the modelled code
  reads are kept; the others are carried along unchanged by the source.
\<close>

record summary =
  scenario_id :: "string option"
  served_energy_mwh :: "real option"
  total_demand_mwh :: "real option"
  objective_usd :: "real option"

text \<open>
  Lines 438-443 of \<^verbatim>\<open>renderCostBreakdown\<close>:
  \<^verbatim>\<open>Number(summary.served_energy_mwh || summary.total_demand_mwh || 0)\<close>, where
  a zero is falsy like a missing property.
\<close>

definition servedEnergy :: "summary \<Rightarrow> real" where
  "servedEnergy s =
     (case served_energy_mwh s of
        Some v \<Rightarrow> if v \<noteq> 0 then v else Number0 (total_demand_mwh s)
      | None \<Rightarrow> Number0 (total_demand_mwh s))"

text \<open>
  Lines 441-443: the unit mode, the scale and the title of the value axis.
\<close>

definition usePerMwh :: "string \<Rightarrow> summary \<Rightarrow> bool" where
  "usePerMwh mode s = (mode = ''per_mwh'' \<and> servedEnergy s > 0)"

definition scale :: "string \<Rightarrow> summary \<Rightarrow> real" where
  "scale mode s = (if usePerMwh mode s then 1 / servedEnergy s else 1)"

definition yAxisTitle :: "string \<Rightarrow> summary \<Rightarrow> string" where
  "yAxisTitle mode s = (if usePerMwh mode s then ''USD per MWh served'' else ''USD'')"

text \<open>
  \<^verbatim>\<open>costRows.some((row) => hasOwnProperty(row, "component"))\<close>.
\<close>

definition hasDetailed :: "cost_row list \<Rightarrow> bool" where
  "hasDetailed cs = (\<exists>row \<in> set cs. component row \<noteq> None)"

text \<open>
  The coarse schema (lines 449-452): \<open>grouped\<close> maps a bucket name to its
  sum, a missing entry reading as 0; a row without a bucket is filed under
  the property name \<^verbatim>\<open>undefined\<close>.
\<close>

definition bucket_key :: "cost_row \<Rightarrow> string" where
  "bucket_key row = (case bucket row of None \<Rightarrow> ''undefined'' | Some b \<Rightarrow> b)"

fun group_buckets :: "cost_row list \<Rightarrow> (string \<Rightarrow> real) \<Rightarrow> (string \<Rightarrow> real)" where
  "group_buckets [] g = g"
| "group_buckets (row # rows) g =
     group_buckets rows (g(bucket_key row := g (bucket_key row) + Number0 (cost_usd row)))"

text \<open>
  The detailed schema: the display orders and labels of lines 487-500, the
  colours of lines 44-51, and \<^verbatim>\<open>valueFor\<close> (lines 502-505).
\<close>

definition techOrder :: "string list" where
  "techOrder = [''solar'', ''battery'', ''diesel'', ''ccgt'', ''coal'']"

definition componentOrder :: "string list" where
  "componentOrder = [''capex_annualized'', ''fixed_om'', ''var_om'']"

text \<open>
  A lookup in an object literal; inside a template string a missing entry
  prints as \<^verbatim>\<open>undefined\<close>.
\<close>

definition lookup_label :: "(string \<times> string) list \<Rightarrow> string \<Rightarrow> string" where
  "lookup_label table k = (case map_of table k of None \<Rightarrow> ''undefined'' | Some l \<Rightarrow> l)"

definition techLabel :: "string \<Rightarrow> string" where
  "techLabel = lookup_label
     [(''solar'', ''Solar''), (''battery'', ''Battery''), (''diesel'', ''Diesel''),
      (''ccgt'', ''CCGT''), (''coal'', ''Coal'')]"

definition componentLabel :: "string \<Rightarrow> string" where
  "componentLabel = lookup_label
     [(''capex_annualized'', ''CAPEX (annualized)''), (''fixed_om'', ''Fixed O&M''),
      (''var_om'', ''Var O&M'')]"

definition TECH_COST_COLORS :: "string \<rightharpoonup> string" where
  "TECH_COST_COLORS = map_of
     [(''solar'', ''#ffcf5c''), (''battery'', ''#9ef076''), (''diesel'', ''#ff7f50''),
      (''ccgt'', ''#55d3be''), (''coal'', ''#7fb3ff''), (''unserved_penalty'', ''#ff4d6d'')]"

definition valueFor :: "cost_row list \<Rightarrow> string \<Rightarrow> string \<Rightarrow> real" where
  "valueFor cs tech cname =
     foldl (\<lambda>total row. total + Number0 (cost_usd row)) 0
       (filter (\<lambda>row. technology row = Some tech \<and> component row = Some cname) cs)"

record step =
  step_label :: string
  step_value :: real
  step_technology :: string

text \<open>
  Lines 507-520: the two nested loops over \<open>techOrder\<close> and
  \<open>componentOrder\<close>, each pushing at most one step.
\<close>

definition tech_steps :: "cost_row list \<Rightarrow> step list" where
  "tech_steps cs =
     concat (map (\<lambda>tech.
       concat (map (\<lambda>cname.
         let v = valueFor cs tech cname
         in if \<bar>v\<bar> < 0.5 then []
            else [\<lparr>step_label = techLabel tech @ '' '' @ componentLabel cname,
                   step_value = v, step_technology = tech\<rparr>])
         componentOrder))
       techOrder)"

definition unservedPenalty :: "cost_row list \<Rightarrow> real" where
  "unservedPenalty cs =
     foldl (\<lambda>total row. total + Number0 (cost_usd row)) 0
       (filter (\<lambda>row. component row = Some ''unserved_penalty'') cs)"

text \<open>
  Lines 522-527: the penalty step is appended when it reaches the threshold.
\<close>

definition build_steps :: "cost_row list \<Rightarrow> step list" where
  "build_steps cs =
     tech_steps cs @
     (if \<bar>unservedPenalty cs\<bar> \<ge> 0.5
      then [\<lparr>step_label = ''Unserved Penalty'', step_value = unservedPenalty cs,
             step_technology = ''unserved_penalty''\<rparr>]
      else [])"

text \<open>
  The arrays \<^verbatim>\<open>x\<close>, \<^verbatim>\<open>y\<close>, \<^verbatim>\<open>base\<close> and \<^verbatim>\<open>colors\<close> handed to the
  chart. The hover texts are formatted numbers and are left out.
\<close>

record bar_trace =
  trace_x :: "string list"
  trace_y :: "real list"
  trace_base :: "real list"
  trace_colors :: "string list"

text \<open>
  Lines 534-544: the loop over the steps with its running total.
\<close>

fun waterfall_loop :: "real \<Rightarrow> step list \<Rightarrow> bar_trace \<Rightarrow> real \<Rightarrow> bar_trace \<times> real" where
  "waterfall_loop sc [] t running = (t, running)"
| "waterfall_loop sc (st # steps) t running =
     (let scaledValue = step_value st * sc
      in waterfall_loop sc steps
           \<lparr>trace_x = trace_x t @ [step_label st],
            trace_y = trace_y t @ [scaledValue],
            trace_base = trace_base t @ [running],
            trace_colors = trace_colors t @
              [case TECH_COST_COLORS (step_technology st) of None \<Rightarrow> ''#5ec2ff'' | Some c \<Rightarrow> c]\<rparr>
           (running + scaledValue))"

text \<open>
  Lines 546-550: the final step for the total.
\<close>

definition waterfall :: "real \<Rightarrow> step list \<Rightarrow> bar_trace" where
  "waterfall sc steps =
     (case waterfall_loop sc steps
             \<lparr>trace_x = [], trace_y = [], trace_base = [], trace_colors = []\<rparr> 0 of
        (t, running) \<Rightarrow>
          \<lparr>trace_x = trace_x t @ [''Total System Cost''],
           trace_y = trace_y t @ [running],
           trace_base = trace_base t @ [0],
           trace_colors = trace_colors t @ [''#f2a13b'']\<rparr>)"

text \<open>
  What \<^verbatim>\<open>renderCostBreakdown\<close> draws: for the coarse schema three stacked
  bars (name and value), for the detailed schema the waterfall trace; each
  with the title of the value axis. With no summary loaded it draws nothing.
\<close>

datatype plot = Stacked "(string \<times> real) list" string | Waterfall bar_trace string

definition renderCostBreakdown :: "summary option \<Rightarrow> string \<Rightarrow> cost_row list \<Rightarrow> plot option" where
  "renderCostBreakdown current_summary mode cs =
     (case current_summary of
        None \<Rightarrow> None
      | Some s \<Rightarrow>
          if \<not> hasDetailed cs
          then (let g = group_buckets cs (\<lambda>_. 0)
                in Some (Stacked [(''Fixed'', g ''fixed'' * scale mode s),
                                  (''Variable'', g ''variable'' * scale mode s),
                                  (''Unserved Penalty'', g ''penalty'' * scale mode s)]
                           (yAxisTitle mode s)))
          else Some (Waterfall (waterfall (scale mode s) (build_steps cs)) (yAxisTitle mode s)))"

text \<open>
  The scaled values of a list of steps, and the label of a technology and
  component pair, for the statements below.
\<close>

definition scaled :: "real \<Rightarrow> step list \<Rightarrow> real list" where
  "scaled sc steps = map (\<lambda>st. step_value st * sc) steps"

definition cost_label :: "string \<times> string \<Rightarrow> string" where
  "cost_label p = techLabel (fst p) @ '' '' @ componentLabel (snd p)"

text \<open>
  The detailed waterfall in the words of the specification, against which
  the code is compared: the sum of the rows that match a technology and
  component pair; the sum of the penalty rows; the pairs that are retained,
  in display order, which are those whose sum has an absolute value of at
  least 0.5; and the labels and the unscaled values of the retained steps,
  the penalty step last when its sum reaches the threshold.
\<close>

definition matching_sum :: "cost_row list \<Rightarrow> string \<Rightarrow> string \<Rightarrow> real" where
  "matching_sum cs tech cname =
     sum_list (map (\<lambda>row. Number0 (cost_usd row))
       (filter (\<lambda>row. technology row = Some tech \<and> component row = Some cname) cs))"

definition penalty_sum :: "cost_row list \<Rightarrow> real" where
  "penalty_sum cs =
     sum_list (map (\<lambda>row. Number0 (cost_usd row))
       (filter (\<lambda>row. component row = Some ''unserved_penalty'') cs))"

definition retained_pairs :: "cost_row list \<Rightarrow> (string \<times> string) list" where
  "retained_pairs cs =
     filter (\<lambda>p. \<bar>matching_sum cs (fst p) (snd p)\<bar> \<ge> 0.5) (List.product techOrder componentOrder)"

definition retained_labels :: "cost_row list \<Rightarrow> string list" where
  "retained_labels cs =
     map cost_label (retained_pairs cs)
     @ (if \<bar>penalty_sum cs\<bar> \<ge> 0.5 then [''Unserved Penalty''] else [])"

definition retained_values :: "cost_row list \<Rightarrow> real list" where
  "retained_values cs =
     map (\<lambda>p. matching_sum cs (fst p) (snd p)) (retained_pairs cs)
     @ (if \<bar>penalty_sum cs\<bar> \<ge> 0.5 then [penalty_sum cs] else [])"

text \<open>
  A detailed cost row and a summary with given served energy and total
  demand, for the examples.
\<close>

definition cost :: "string \<Rightarrow> string \<Rightarrow> real \<Rightarrow> cost_row" where
  "cost tech cname usd =
     \<lparr>technology = Some tech, component = Some cname, bucket = None, cost_usd = Some usd\<rparr>"

definition served :: "real \<Rightarrow> real \<Rightarrow> summary" where
  "served energy demand =
     \<lparr>scenario_id = None, served_energy_mwh = Some energy, total_demand_mwh = Some demand,
      objective_usd = None\<rparr>"

text \<open>
  A plot with every value and every running offset divided by \<open>v\<close>, under
  the per-unit title.
\<close>

definition divide_plot :: "real \<Rightarrow> plot \<Rightarrow> plot" where
  "divide_plot v p =
     (case p of
        Stacked bars title \<Rightarrow>
          Stacked (map (\<lambda>bar. (fst bar, snd bar / v)) bars) ''USD per MWh served''
      | Waterfall t title \<Rightarrow>
          Waterfall (t\<lparr>trace_y := map (\<lambda>a. a / v) (trace_y t),
                       trace_base := map (\<lambda>a. a / v) (trace_base t)\<rparr>)
            ''USD per MWh served'')"

subsection \<open>Retrieval and the source resolver\<close>

text \<open>
  What \<^verbatim>\<open>fetch(url)\<close> meets at a URL: no answer at all (the promise
  rejects), an answer whose status is not in the 200s (with its status and
  body text), an answer whose body parses to a value, or an answer whose body
  does not parse (with the parser's message). The value of a JSON body is
  \<open>Some\<close> object or \<open>None\<close> for the JSON literal \<^verbatim>\<open>null\<close>, on
  which every property read throws; the value of a delimited file is its
  rows.
\<close>

datatype 'a response = Unreachable | Status nat string | Body 'a | BadBody string

text \<open>
  Lines 85-95. The result \<open>None\<close> is \<^verbatim>\<open>null\<close>: the value returned for an
  optional resource that is not found, and the value of a body that is the
  JSON literal \<^verbatim>\<open>null\<close>.
\<close>

fun fetchJson :: "string \<Rightarrow> bool \<Rightarrow> 'a option response \<Rightarrow> error + 'a option" where
  "fetchJson url optional Unreachable = Inl (TypeError ''Failed to fetch'')"
| "fetchJson url optional (Status st text) =
     (if optional \<and> st = 404 then Inr None
      else Inl (Error (if text = [] then ''Request failed: '' @ url else text)))"
| "fetchJson url optional (Body v) = Inr v"
| "fetchJson url optional (BadBody msg) = Inl (SyntaxError msg)"

text \<open>
  Lines 97-124. \<open>papa\<close> says whether the tabular parser is loaded.
\<close>

fun fetchCsvRows :: "bool \<Rightarrow> string \<Rightarrow> bool \<Rightarrow> 'a list response \<Rightarrow> error + 'a list" where
  "fetchCsvRows papa url optional Unreachable = Inl (TypeError ''Failed to fetch'')"
| "fetchCsvRows papa url optional (Status st text) =
     (if optional \<and> st = 404 then Inr []
      else Inl (Error (if text = [] then ''Request failed: '' @ url else text)))"
| "fetchCsvRows papa url optional (Body parsed) =
     (if \<not> papa then Inl (Error ''CSV parser not loaded (Papa Parse missing).'')
      else Inr parsed)"
| "fetchCsvRows papa url optional (BadBody msg) =
     (if \<not> papa then Inl (Error ''CSV parser not loaded (Papa Parse missing).'')
      else Inl (Error (''CSV parse error ('' @ url @ ''): '' @ msg)))"

text \<open>
  Lines 30 and 126-131.
\<close>

definition STATIC_OUTPUTS_DIR :: string where
  "STATIC_OUTPUTS_DIR = ''./outputs''"

definition scenarioStaticBasePath :: "string \<Rightarrow> string" where
  "scenarioStaticBasePath scenarioId =
     (if scenarioId = ''base'' then STATIC_OUTPUTS_DIR
      else STATIC_OUTPUTS_DIR @ ''/scenarios/'' @ scenarioId)"

text \<open>
  \<^verbatim>\<open>encodeURIComponent\<close> on a string held as its UTF-8 bytes: every byte
  other than an unreserved character becomes a percent sign and two
  hexadecimal digits.
\<close>

definition unreserved :: "char \<Rightarrow> bool" where
  "unreserved c =
     (c \<in> set (''ABCDEFGHIJKLMNOPQRSTUVWXYZabcdefghijklmnopqrstuvwxyz0123456789-_.!~*()''
               @ [CHR 0x27]))"

definition hex_digit :: "nat \<Rightarrow> char" where
  "hex_digit n = ''0123456789ABCDEF'' ! (n mod 16)"

definition encodeURIComponent :: "string \<Rightarrow> string" where
  "encodeURIComponent s =
     concat (map (\<lambda>c. if unreserved c then [c]
                       else [CHR ''%'', hex_digit (of_char c div 16), hex_digit (of_char c)]) s)"

text \<open>
  \<^verbatim>\<open>String.prototype.trim\<close> on a string held as its UTF-8 bytes. It
  strips, at both ends, the white space and line terminator code points of
  the language: U+0009 to U+000D, U+0020, U+00A0, U+1680, U+2000 to U+200A,
  U+2028, U+2029, U+202F, U+205F, U+3000 and U+FEFF, each listed here as its
  byte sequence. \<open>leading\<close> is the length of the sequence a string starts
  with, 0 if it starts with none.
\<close>

definition white_space :: "string list" where
  "white_space =
     [ [CHR 0x09], [CHR 0x0A], [CHR 0x0B], [CHR 0x0C], [CHR 0x0D], [CHR 0x20],
      [CHR 0xC2, CHR 0xA0], [CHR 0xE1, CHR 0x9A, CHR 0x80],
      [CHR 0xE2, CHR 0x80, CHR 0x80], [CHR 0xE2, CHR 0x80, CHR 0x81],
      [CHR 0xE2, CHR 0x80, CHR 0x82], [CHR 0xE2, CHR 0x80, CHR 0x83],
      [CHR 0xE2, CHR 0x80, CHR 0x84], [CHR 0xE2, CHR 0x80, CHR 0x85],
      [CHR 0xE2, CHR 0x80, CHR 0x86], [CHR 0xE2, CHR 0x80, CHR 0x87],
      [CHR 0xE2, CHR 0x80, CHR 0x88], [CHR 0xE2, CHR 0x80, CHR 0x89],
      [CHR 0xE2, CHR 0x80, CHR 0x8A], [CHR 0xE2, CHR 0x80, CHR 0xA8],
      [CHR 0xE2, CHR 0x80, CHR 0xA9], [CHR 0xE2, CHR 0x80, CHR 0xAF],
      [CHR 0xE2, CHR 0x81, CHR 0x9F], [CHR 0xE3, CHR 0x80, CHR 0x80],
      [CHR 0xEF, CHR 0xBB, CHR 0xBF] ]"

definition leading :: "string list \<Rightarrow> string \<Rightarrow> nat" where
  "leading ws s = (case find (\<lambda>w. prefix w s) ws of None \<Rightarrow> 0 | Some w \<Rightarrow> length w)"

function strip_leading :: "string list \<Rightarrow> string \<Rightarrow> string" where
  "strip_leading ws s =
     (if leading ws s = 0 then s else strip_leading ws (drop (leading ws s) s))"
  by pat_completeness auto
termination
proof (relation "measure (\<lambda>(ws, s). length s)")
  show "wf (measure (\<lambda>(ws, s). length s))" by simp
next
  fix ws :: "string list" and s :: string
  assume nz: "leading ws s \<noteq> 0"
  then obtain w where w: "find (\<lambda>w. prefix w s) ws = Some w" "length w \<noteq> 0"
    by (auto simp: leading_def split: option.splits)
  then have "prefix w s" by (auto simp: find_Some_iff)
  then have "length w \<le> length s" by (rule prefix_length_le)
  with w(2) have "0 < length s" by (cases s) auto
  with nz show "((ws, drop (leading ws s) s), (ws, s)) \<in> measure (\<lambda>(ws, s). length s)"
    by simp
qed

declare strip_leading.simps [simp del]

definition trim :: "string \<Rightarrow> string" where
  "trim s = rev (strip_leading (map rev white_space) (rev (strip_leading white_space s)))"

text \<open>
  An entry of the scenario index document: \<open>entry_id\<close> is
  \<^verbatim>\<open>String(scenario.id || "")\<close> before trimming, \<open>entry_label\<close> the label
  (empty when absent). \<open>index_scenarios\<close> is \<open>None\<close> when the document's
  \<^verbatim>\<open>scenarios\<close> property is not an array. A catalog is the payload
  \<^verbatim>\<open>{default_scenario, scenarios}\<close>. A static site is what the two
  well-known static paths answer.
\<close>

record index_entry =
  entry_id :: string
  entry_label :: string

record index_doc =
  index_scenarios :: "index_entry list option"



text \<open>
  Lines 143-163: the rows pushed for the index document.
\<close>

definition index_rows :: "index_doc option \<Rightarrow> descriptor list" where
  "index_rows indexPayload =
     (case indexPayload of
        None \<Rightarrow> []
      | Some doc \<Rightarrow>
          (case index_scenarios doc of
             None \<Rightarrow> []
           | Some entries \<Rightarrow>
               concat (map (\<lambda>scenario.
                 let sid = trim (entry_id scenario)
                 in if sid = [] then []
                    else [\<lparr>row_id = sid, row_label = str_or (Some (entry_label scenario)) sid,
                           row_source = static_index\<rparr>]) entries)))"


text \<open>
  The module's global variables (lines 20-29), passed and returned
  explicitly. A comparison row is a summary with its \<^verbatim>\<open>scenario_id\<close>
  overridden and a \<^verbatim>\<open>scenario_label\<close> added.
\<close>

record assumption_row =
  assumption :: string
  assumption_value :: "string option"
  assumption_unit :: string

record comparison_row =
  cmp_summary :: summary
  scenario_label :: string

record globals =
  scenarios :: "descriptor list"
  currentScenario :: "string option"
  summary :: "summary option"
  hourly :: "hourly_row list"
  costRows :: "cost_row list"
  assumptionsRows :: "assumption_row list"
  comparisonSummaries :: "comparison_row list"
  comparisonLoadFailures :: int
  useApiBackend :: bool




text \<open>
  The globals at page load.
\<close>

definition initial_globals :: globals where
  "initial_globals =
     \<lparr>scenarios = [], currentScenario = None, summary = None, hourly = [], costRows = [],
      assumptionsRows = [], comparisonSummaries = [], comparisonLoadFailures = 0,
      useApiBackend = False\<rparr>"





subsection \<open>The comparison aggregator\<close>

text \<open>
  What the server holds for one scenario, under both backends. An API
  payload for hourly, cost or assumption rows is an object whose
  \<^verbatim>\<open>rows\<close> property may be absent; a static tabular file parses to rows,
  and an assumption row of such a file is a map from column header to cell.
  A server maps a scenario id to these files.
\<close>

record 'a rows_payload =
  payload_rows :: "'a list option"

type_synonym csv_row = "string \<rightharpoonup> string"

record scenario_files =
  api_summary :: "summary option response"
  api_hourly :: "hourly_row rows_payload option response"
  api_cost :: "cost_row rows_payload option response"
  api_assumptions :: "assumption_row rows_payload option response"
  static_summary :: "summary option response"
  static_hourly :: "hourly_row list response"
  static_cost :: "cost_row list response"
  static_assumptions :: "csv_row list response"

type_synonym server = "string \<Rightarrow> scenario_files"

text \<open>
  A summary with no property set.
\<close>

definition empty_summary :: summary where
  "empty_summary =
     \<lparr>scenario_id = None, served_energy_mwh = None, total_demand_mwh = None, objective_usd = None\<rparr>"

text \<open>
  Lines 961-986. \<open>summary_retrieval\<close> is the \<^verbatim>\<open>fetchJson\<close> call of one
  task, \<open>comparison_task\<close> the whole task: it rejects when the call does,
  and also when it reads a property of a null payload.
\<close>

definition summary_retrieval :: "server \<Rightarrow> bool \<Rightarrow> descriptor \<Rightarrow> error + summary option" where
  "summary_retrieval srv use_api row =
     (if use_api
      then fetchJson (''/api/summary'' @ ''?scenario='' @ encodeURIComponent (row_id row)) False
             (api_summary (srv (row_id row)))
      else fetchJson (scenarioStaticBasePath (row_id row) @ ''/summary.json'') False
             (static_summary (srv (row_id row))))"

definition comparison_task :: "server \<Rightarrow> bool \<Rightarrow> descriptor \<Rightarrow> error + comparison_row" where
  "comparison_task srv use_api row =
     (case summary_retrieval srv use_api row of
        Inl e \<Rightarrow> Inl e
      | Inr None \<Rightarrow>
          if use_api then Inl (TypeError ''Cannot read properties of null'')
          else Inr \<lparr>cmp_summary = empty_summary\<lparr>scenario_id := Some (row_id row)\<rparr>,
                    scenario_label = str_or (Some (row_label row)) (row_id row)\<rparr>
      | Inr (Some payload) \<Rightarrow>
          if use_api
          then Inr \<lparr>cmp_summary =
                      payload\<lparr>scenario_id := Some (str_or (scenario_id payload) (row_id row))\<rparr>,
                    scenario_label =
                      str_or (Some (row_label row)) (str_or (scenario_id payload) (row_id row))\<rparr>
          else Inr \<lparr>cmp_summary = payload\<lparr>scenario_id := Some (row_id row)\<rparr>,
                    scenario_label = str_or (Some (row_label row)) (row_id row)\<rparr>)"

text \<open>
  \<^verbatim>\<open>Promise.allSettled\<close> never rejects; the fulfilled values are kept in
  the order of the tasks.
\<close>

definition fulfilled_value :: "error + 'a \<Rightarrow> 'a option" where
  "fulfilled_value result = (case result of Inl e \<Rightarrow> None | Inr v \<Rightarrow> Some v)"

text \<open>
  Lines 961-986 as a whole: the two globals of the comparison are assigned,
  nothing is thrown.
\<close>

definition loadComparisonData :: "server \<Rightarrow> globals \<Rightarrow> globals" where
  "loadComparisonData srv g =
     (let settled = map (comparison_task srv (useApiBackend g)) (scenarios g);
          fulfilled = List.map_filter fulfilled_value settled
      in g\<lparr>comparisonSummaries := fulfilled,
            comparisonLoadFailures := int (length settled) - int (length fulfilled)\<rparr>)"

text \<open>
  For the statement about the comparison list: whether the summary retrieval
  of a catalog row rejects (its request fails, or, in API mode, it answers
  \<^verbatim>\<open>null\<close>, whose \<^verbatim>\<open>scenario_id\<close> cannot be read), and how a
  comparison row is tagged for the catalog row it comes from (in static mode
  a \<^verbatim>\<open>null\<close> summary spreads to no property at all).
\<close>

definition retrieval_rejects :: "server \<Rightarrow> bool \<Rightarrow> descriptor \<Rightarrow> bool" where
  "retrieval_rejects srv use_api row =
     (case summary_retrieval srv use_api row of
        Inl e \<Rightarrow> True
      | Inr None \<Rightarrow> use_api
      | Inr (Some payload) \<Rightarrow> False)"

definition tagged :: "server \<Rightarrow> bool \<Rightarrow> comparison_row \<Rightarrow> descriptor \<Rightarrow> bool" where
  "tagged srv use_api r row =
     (case summary_retrieval srv use_api row of
        Inl e \<Rightarrow> False
      | Inr None \<Rightarrow>
          \<not> use_api
          \<and> cmp_summary r = empty_summary\<lparr>scenario_id := Some (row_id row)\<rparr>
          \<and> scenario_label r = (if row_label row \<noteq> [] then row_label row else row_id row)
      | Inr (Some payload) \<Rightarrow>
          cmp_summary r =
            payload\<lparr>scenario_id :=
              Some (if use_api then str_or (scenario_id payload) (row_id row) else row_id row)\<rparr>
          \<and> scenario_label r =
              (if row_label row \<noteq> [] then row_label row
               else if use_api then str_or (scenario_id payload) (row_id row) else row_id row))"

text \<open>
  A catalog row whose label is its id, and a server file set that answers
  the summary request only, for the examples.
\<close>

definition scenario :: "string \<Rightarrow> descriptor" where
  "scenario sid = \<lparr>row_id = sid, row_label = sid, row_source = static_index\<rparr>"

definition one_summary :: "summary option response \<Rightarrow> scenario_files" where
  "one_summary r =
     \<lparr>api_summary = r, api_hourly = Unreachable, api_cost = Unreachable,
      api_assumptions = Unreachable, static_summary = r, static_hourly = Unreachable,
      static_cost = Unreachable, static_assumptions = Unreachable\<rparr>"

subsection \<open>The scenario data loader and scenario switches\<close>

text \<open>
  The four retrievals of a scenario load, in the order of the array handed
  to \<^verbatim>\<open>Promise.all\<close>. The results of the four promises are kept as a tuple,
  each an error or a value; the slots hold the values fulfilled so far.
\<close>

datatype retrieval = R_summary | R_hourly | R_cost | R_assumptions

type_synonym ('w, 'x, 'y, 'z) results =
  "(error + 'w) \<times> (error + 'x) \<times> (error + 'y) \<times> (error + 'z)"

type_synonym ('w, 'x, 'y, 'z) slots = "'w option \<times> 'x option \<times> 'y option \<times> 'z option"

text \<open>
  \<^verbatim>\<open>Promise.all\<close> over the four promises. \<open>order\<close> lists the
  retrievals in the order in which they settle. The first rejection rejects
  the whole; the fulfilment that fills the last slot fulfils it with all four
  values; while neither has happened the promise is pending, which is the
  result \<open>None\<close>: the \<^verbatim>\<open>await\<close> has not returned.
\<close>

fun settle_one ::
  "retrieval \<Rightarrow> ('w, 'x, 'y, 'z) results \<Rightarrow> ('w, 'x, 'y, 'z) slots
     \<Rightarrow> error + ('w, 'x, 'y, 'z) slots" where
  "settle_one R_summary (a, b, c, d) (w, x, y, z) =
     (case a of Inl e \<Rightarrow> Inl e | Inr v \<Rightarrow> Inr (Some v, x, y, z))"
| "settle_one R_hourly (a, b, c, d) (w, x, y, z) =
     (case b of Inl e \<Rightarrow> Inl e | Inr v \<Rightarrow> Inr (w, Some v, y, z))"
| "settle_one R_cost (a, b, c, d) (w, x, y, z) =
     (case c of Inl e \<Rightarrow> Inl e | Inr v \<Rightarrow> Inr (w, x, Some v, z))"
| "settle_one R_assumptions (a, b, c, d) (w, x, y, z) =
     (case d of Inl e \<Rightarrow> Inl e | Inr v \<Rightarrow> Inr (w, x, y, Some v))"

fun complete :: "('w, 'x, 'y, 'z) slots \<Rightarrow> ('w \<times> 'x \<times> 'y \<times> 'z) option" where
  "complete (Some w, Some x, Some y, Some z) = Some (w, x, y, z)"
| "complete values = None"

fun Promise_all ::
  "retrieval list \<Rightarrow> ('w, 'x, 'y, 'z) results \<Rightarrow> ('w, 'x, 'y, 'z) slots
     \<Rightarrow> (error + 'w \<times> 'x \<times> 'y \<times> 'z) option" where
  "Promise_all [] results values = None"
| "Promise_all (k # order) results values =
     (case settle_one k results values of
        Inl e \<Rightarrow> Some (Inl e)
      | Inr values' \<Rightarrow>
          (case complete values' of
             Some all_values \<Rightarrow> Some (Inr all_values)
           | None \<Rightarrow> Promise_all order results values'))"

text \<open>
  \<^verbatim>\<open>a ?? b\<close>, and the column aliasing of lines 954-958.
\<close>

definition nullish :: "'a option \<Rightarrow> 'a option \<Rightarrow> 'a option" where
  "nullish a b = (case a of None \<Rightarrow> b | Some v \<Rightarrow> Some v)"

definition alias_assumption :: "csv_row \<Rightarrow> assumption_row" where
  "alias_assumption row =
     \<lparr>assumption =
        (case nullish (row ''assumption'') (row ''Assumption'') of None \<Rightarrow> [] | Some v \<Rightarrow> v),
      assumption_value = nullish (row ''value'') (row ''Value''),
      assumption_unit =
        (case nullish (row ''unit'') (row ''Unit / Notes'') of None \<Rightarrow> [] | Some v \<Rightarrow> v)\<rparr>"

text \<open>
  \<^verbatim>\<open>payload.rows || []\<close>.
\<close>

definition rows_or_empty :: "'a rows_payload \<Rightarrow> 'a list" where
  "rows_or_empty payload = (case payload_rows payload of None \<Rightarrow> [] | Some found \<Rightarrow> found)"

text \<open>
  The four requests of each backend (lines 923-929 and 939-945).
\<close>

definition api_retrievals ::
  "server \<Rightarrow> string \<Rightarrow>
   (summary option, hourly_row rows_payload option, cost_row rows_payload option,
    assumption_row rows_payload option) results" where
  "api_retrievals srv scenarioId =
     (let query = ''?scenario='' @ encodeURIComponent scenarioId
      in (fetchJson (''/api/summary'' @ query) False (api_summary (srv scenarioId)),
          fetchJson (''/api/hourly'' @ query) False (api_hourly (srv scenarioId)),
          fetchJson (''/api/cost-breakdown'' @ query) False (api_cost (srv scenarioId)),
          fetchJson (''/api/assumptions'' @ query) False (api_assumptions (srv scenarioId))))"

definition static_retrievals ::
  "bool \<Rightarrow> server \<Rightarrow> string \<Rightarrow>
   (summary option, hourly_row list, cost_row list, csv_row list) results" where
  "static_retrievals papa srv scenarioId =
     (let basePath = scenarioStaticBasePath scenarioId
      in (fetchJson (basePath @ ''/summary.json'') False (static_summary (srv scenarioId)),
          fetchCsvRows papa (basePath @ ''/hourly_dispatch.csv'') False
            (static_hourly (srv scenarioId)),
          fetchCsvRows papa (basePath @ ''/cost_breakdown.csv'') False
            (static_cost (srv scenarioId)),
          fetchCsvRows papa (basePath @ ''/assumptions_used.csv'') True
            (static_assumptions (srv scenarioId))))"

text \<open>
  The assignments that follow the \<^verbatim>\<open>await\<close>, in source order (lines
  931-935 and 947-958). Reading a property of a null payload throws a
  \<^verbatim>\<open>TypeError\<close> (its message, which names the property, is cut short
  here) after the assignments before it have been made.
\<close>

definition null_read :: error where
  "null_read = TypeError ''Cannot read properties of null''"

definition api_assign ::
  "globals \<Rightarrow> string \<Rightarrow> summary option \<Rightarrow> hourly_row rows_payload option
     \<Rightarrow> cost_row rows_payload option \<Rightarrow> assumption_row rows_payload option
     \<Rightarrow> error option \<times> globals" where
  "api_assign g scenarioId summaryPayload hourlyPayload costPayload assumptionsPayload =
     (case summaryPayload of
        None \<Rightarrow> (Some null_read, g)
      | Some sp \<Rightarrow>
          (let g1 = g\<lparr>currentScenario := Some (str_or (scenario_id sp) scenarioId),
                       summary := Some sp\<rparr>
           in case hourlyPayload of
                None \<Rightarrow> (Some null_read, g1)
              | Some hp \<Rightarrow>
                  (let g2 = g1\<lparr>hourly := rows_or_empty hp\<rparr>
                   in case costPayload of
                        None \<Rightarrow> (Some null_read, g2)
                      | Some cp \<Rightarrow>
                          (let g3 = g2\<lparr>costRows := rows_or_empty cp\<rparr>
                           in case assumptionsPayload of
                                None \<Rightarrow> (Some null_read, g3)
                              | Some ap \<Rightarrow>
                                  (None, g3\<lparr>assumptionsRows := rows_or_empty ap\<rparr>)))))"

definition static_assign ::
  "globals \<Rightarrow> string \<Rightarrow> summary option \<Rightarrow> hourly_row list \<Rightarrow> cost_row list \<Rightarrow> csv_row list
     \<Rightarrow> error option \<times> globals" where
  "static_assign g scenarioId summaryPayload hourlyRows costs assumptions =
     (let g1 = g\<lparr>currentScenario := Some scenarioId\<rparr>
      in case summaryPayload of
           None \<Rightarrow> (Some null_read, g1)
         | Some sp \<Rightarrow>
             (None,
              g1\<lparr>summary := Some (sp\<lparr>scenario_id := Some (str_or (scenario_id sp) scenarioId)\<rparr>),
                  hourly := hourlyRows,
                  costRows := costs,
                  assumptionsRows := map alias_assumption assumptions\<rparr>))"

text \<open>
  Lines 921-959. The result is \<open>None\<close> while the load is pending, and
  otherwise the error thrown, if any, with the globals as the load leaves
  them.
\<close>

definition loadScenarioData ::
  "bool \<Rightarrow> server \<Rightarrow> globals \<Rightarrow> string \<Rightarrow> retrieval list \<Rightarrow> (error option \<times> globals) option" where
  "loadScenarioData papa srv g scenarioId order =
     (if useApiBackend g
      then (case Promise_all order (api_retrievals srv scenarioId) (None, None, None, None) of
              None \<Rightarrow> None
            | Some (Inl e) \<Rightarrow> Some (Some e, g)
            | Some (Inr (summaryPayload, hourlyPayload, costPayload, assumptionsPayload)) \<Rightarrow>
                Some (api_assign g scenarioId summaryPayload hourlyPayload costPayload
                        assumptionsPayload))
      else (case Promise_all order (static_retrievals papa srv scenarioId)
                   (None, None, None, None) of
              None \<Rightarrow> None
            | Some (Inl e) \<Rightarrow> Some (Some e, g)
            | Some (Inr (summaryPayload, hourlyRows, costs, assumptions)) \<Rightarrow>
                Some (static_assign g scenarioId summaryPayload hourlyRows costs assumptions)))"

text \<open>
  The error with which a retrieval rejects, if it does.
\<close>

fun rejected :: "retrieval \<Rightarrow> ('w, 'x, 'y, 'z) results \<Rightarrow> error option" where
  "rejected R_summary (a, b, c, d) = (case a of Inl e \<Rightarrow> Some e | Inr v \<Rightarrow> None)"
| "rejected R_hourly (a, b, c, d) = (case b of Inl e \<Rightarrow> Some e | Inr v \<Rightarrow> None)"
| "rejected R_cost (a, b, c, d) = (case c of Inl e \<Rightarrow> Some e | Inr v \<Rightarrow> None)"
| "rejected R_assumptions (a, b, c, d) = (case d of Inl e \<Rightarrow> Some e | Inr v \<Rightarrow> None)"

definition retrieval_error :: "bool \<Rightarrow> server \<Rightarrow> bool \<Rightarrow> string \<Rightarrow> retrieval \<Rightarrow> error option" where
  "retrieval_error papa srv use_api scenarioId k =
     (if use_api then rejected k (api_retrievals srv scenarioId)
      else rejected k (static_retrievals papa srv scenarioId))"

text \<open>
  Whether a retrieval is fulfilled with \<^verbatim>\<open>null\<close> where the load reads a
  property of the value: any of the four API payloads, and the summary of
  the static files (the three delimited files yield lists of rows).
\<close>

definition null_payload :: "bool \<Rightarrow> server \<Rightarrow> bool \<Rightarrow> string \<Rightarrow> retrieval \<Rightarrow> bool" where
  "null_payload papa srv use_api scenarioId k =
     (if use_api
      then (case api_retrievals srv scenarioId of
              (a, b, c, d) \<Rightarrow>
                (case k of
                   R_summary \<Rightarrow> a = Inr None
                 | R_hourly \<Rightarrow> b = Inr None
                 | R_cost \<Rightarrow> c = Inr None
                 | R_assumptions \<Rightarrow> d = Inr None))
      else (case static_retrievals papa srv scenarioId of
              (a, b, c, d) \<Rightarrow> k = R_summary \<and> a = Inr None))"

text \<open>
  A session: the globals, the loads initiated so far with the retrievals of
  each that have settled, and the errors shown to the user. The events are
  the selection of a scenario (lines 1032-1040), which initiates a load, and
  the settling of one retrieval of one load. Execution is single-threaded,
  so the continuation of a load runs without interruption at the event that
  settles its \<^verbatim>\<open>Promise.all\<close>; retrievals that settle after that are
  ignored.
\<close>

record load =
  load_scenario :: string
  settled :: "retrieval list"
  finished :: bool

record session =
  globals_of :: globals
  loads :: "load list"
  surfaced :: "error list"

datatype event = Select string | Settle nat retrieval

text \<open>
  The handling of one event, and of a sequence of events in order.
\<close>

fun dispatch :: "bool \<Rightarrow> server \<Rightarrow> session \<Rightarrow> event \<Rightarrow> session" where
  "dispatch papa srv s (Select scenarioId) =
     s\<lparr>loads := loads s @ [\<lparr>load_scenario = scenarioId, settled = [], finished = False\<rparr>]\<rparr>"
| "dispatch papa srv s (Settle n k) =
     (if n < length (loads s) \<and> \<not> finished (loads s ! n)
      then (let ld = loads s ! n; order = settled ld @ [k]
            in case loadScenarioData papa srv (globals_of s) (load_scenario ld) order of
                 None \<Rightarrow> s\<lparr>loads := (loads s)[n := ld\<lparr>settled := order\<rparr>]\<rparr>
               | Some (thrown, g') \<Rightarrow>
                   s\<lparr>globals_of := g',
                     loads := (loads s)[n := ld\<lparr>settled := order, finished := True\<rparr>],
                     surfaced := surfaced s @ (case thrown of None \<Rightarrow> [] | Some e \<Rightarrow> [e])\<rparr>)
      else s)"

definition run :: "bool \<Rightarrow> server \<Rightarrow> session \<Rightarrow> event list \<Rightarrow> session" where
  "run papa srv s events = foldl (dispatch papa srv) s events"

text \<open>
  For the statements about \<^verbatim>\<open>Promise.all\<close>: the retrievals whose slot
  is filled, and slots that hold nothing but values of the results.
\<close>

fun filled :: "('w, 'x, 'y, 'z) slots \<Rightarrow> retrieval set" where
  "filled (w, x, y, z) =
     (if w = None then {} else {R_summary}) \<union> (if x = None then {} else {R_hourly})
     \<union> (if y = None then {} else {R_cost}) \<union> (if z = None then {} else {R_assumptions})"

fun consistent :: "('w, 'x, 'y, 'z) results \<Rightarrow> ('w, 'x, 'y, 'z) slots \<Rightarrow> bool" where
  "consistent (a, b, c, d) (w, x, y, z) =
     ((case w of None \<Rightarrow> True | Some v \<Rightarrow> a = Inr v)
      \<and> (case x of None \<Rightarrow> True | Some v \<Rightarrow> b = Inr v)
      \<and> (case y of None \<Rightarrow> True | Some v \<Rightarrow> c = Inr v)
      \<and> (case z of None \<Rightarrow> True | Some v \<Rightarrow> d = Inr v))"

text \<open>
  A server on which every file of every scenario is present (the optional
  assumptions file apart) and whose summary for a scenario reports that
  scenario's id, a session with nothing loaded, and globals in which the
  data of the scenario "base" is current, for the examples.
\<close>

definition scenario_store :: "summary \<Rightarrow> scenario_files" where
  "scenario_store sm =
     \<lparr>api_summary = Body (Some sm), api_hourly = Body (Some \<lparr>payload_rows = Some []\<rparr>),
      api_cost = Body (Some \<lparr>payload_rows = Some []\<rparr>),
      api_assumptions = Body (Some \<lparr>payload_rows = None\<rparr>),
      static_summary = Body (Some sm), static_hourly = Body [], static_cost = Body [],
      static_assumptions = Status 404 ''Not Found''\<rparr>"

definition named_store :: server where
  "named_store sid = scenario_store (empty_summary\<lparr>scenario_id := Some sid\<rparr>)"

definition fresh_session :: session where
  "fresh_session = \<lparr>globals_of = initial_globals, loads = [], surfaced = []\<rparr>"

definition base_loaded :: globals where
  "base_loaded =
     initial_globals
       \<lparr>currentScenario := Some ''base'',
        summary := Some (empty_summary\<lparr>scenario_id := Some ''base''\<rparr>),
        costRows := [cost ''solar'' ''capex_annualized'' 60]\<rparr>"

text \<open>
  For the statements about sessions: the globals with the five variables of
  the current data reset; that a function tracks, for every load, the
  retrievals settled so far; and that every retrieval of every load
  succeeds, none with a null payload.
\<close>

definition clear :: "globals \<Rightarrow> globals" where
  "clear g = g\<lparr>currentScenario := None, summary := None, hourly := [], costRows := [],
               assumptionsRows := []\<rparr>"

definition tracks :: "session \<Rightarrow> (nat \<Rightarrow> retrieval set) \<Rightarrow> bool" where
  "tracks s T =
     (\<forall>n < length (loads s).
        (finished (loads s ! n) \<longleftrightarrow> T n = UNIV)
        \<and> (\<not> finished (loads s ! n) \<longrightarrow> set (settled (loads s ! n)) = T n))"

definition healthy :: "bool \<Rightarrow> server \<Rightarrow> session \<Rightarrow> bool" where
  "healthy papa srv s =
     (\<forall>n < length (loads s). \<forall>k.
        retrieval_error papa srv (useApiBackend (globals_of s)) (load_scenario (loads s ! n)) k
          = None
        \<and> \<not> null_payload papa srv (useApiBackend (globals_of s))
              (load_scenario (loads s ! n)) k)"

section \<open>Properties\<close>

subsection \<open>Deduplication\<close>

lemma dedup_loop_append:
  "dedup_loop rows seen deduped = deduped @ dedup_loop rows seen []"
proof (induction rows arbitrary: seen deduped)
  case Nil
  show ?case by simp
next
  case (Cons row rows)
  show ?case
    using Cons.IH [of seen deduped] Cons.IH [of "insert (row_id row) seen" "deduped @ [row]"]
      Cons.IH [of "insert (row_id row) seen" "[row]"]
    by simp
qed

lemma dedup_loop_Cons:
  "dedup_loop (row # rows) seen [] =
     (if row_id row = [] \<or> row_id row \<in> seen then dedup_loop rows seen []
      else row # dedup_loop rows (insert (row_id row) seen) [])"
  using dedup_loop_append [of rows "insert (row_id row) seen" "[row]"] by simp

lemma dedup_loop_ids:
  "row_id ` set (dedup_loop rows seen []) = row_id ` set rows - seen - {[]}"
proof (induction rows arbitrary: seen)
  case Nil
  show ?case by simp
next
  case (Cons row rows)
  show ?case
    unfolding dedup_loop_Cons using Cons.IH by auto
qed

lemma dedup_loop_distinct: "distinct (map row_id (dedup_loop rows seen []))"
proof (induction rows arbitrary: seen)
  case Nil
  show ?case by simp
next
  case (Cons row rows)
  show ?case
    unfolding dedup_loop_Cons using Cons.IH by (simp add: dedup_loop_ids)
qed

lemma dedup_loop_subseq: "subseq (dedup_loop rows seen []) rows"
proof (induction rows arbitrary: seen)
  case Nil
  show ?case by simp
next
  case (Cons row rows)
  show ?case
    unfolding dedup_loop_Cons using Cons.IH list_emb_Cons [of "(=)" _ rows row] by simp
qed

lemma dedup_loop_find:
  "x \<noteq> [] \<Longrightarrow> x \<notin> seen \<Longrightarrow>
   find (\<lambda>r. row_id r = x) (dedup_loop rows seen []) = find (\<lambda>r. row_id r = x) rows"
proof (induction rows arbitrary: seen)
  case Nil
  show ?case by simp
next
  case (Cons row rows)
  show ?case
  proof (cases "row_id row = x")
    case True
    with Cons.prems show ?thesis unfolding dedup_loop_Cons by simp
  next
    case False
    with Cons.prems Cons.IH show ?thesis unfolding dedup_loop_Cons by simp
  qed
qed

text \<open>
  The rows that static discovery feeds to the deduplication all have an id:
  the base row is "base", and an index entry whose trimmed id is empty is
  skipped.
\<close>

lemma index_rows_have_ids: "r \<in> set (index_rows indexPayload) \<Longrightarrow> row_id r \<noteq> []"
proof (cases indexPayload)
  case None
  assume "r \<in> set (index_rows indexPayload)"
  with None show ?thesis by (simp add: index_rows_def)
next
  case (Some doc)
  assume r: "r \<in> set (index_rows indexPayload)"
  show ?thesis
  proof (cases "index_scenarios doc")
    case None
    with Some r show ?thesis by (simp add: index_rows_def)
  next
    case (Some entries)
    with \<open>indexPayload = Some doc\<close> r
    have "\<exists>entry \<in> set entries. trim (entry_id entry) \<noteq> []
            \<and> row_id r = trim (entry_id entry)"
      by (auto simp: index_rows_def Let_def split: if_splits)
    then show ?thesis by auto
  qed
qed

text \<open>
  C8. Fed any sequence of scenario descriptors (their ids are non-empty, as
  the data model requires), the deduplication step returns each id exactly
  once (the ids of the output are distinct and are exactly the ids of the
  input), the descriptor kept for an id is the first one of the input that
  carries it, and the output is a subsequence of the input, so discovery
  order is preserved.
\<close>

theorem dedup_first_occurrence:
  assumes "\<forall>r \<in> set rows. row_id r \<noteq> []"
  shows "distinct (map row_id (dedup rows))
       \<and> set (map row_id (dedup rows)) = set (map row_id rows)
       \<and> (\<forall>x \<in> set (map row_id rows).
            find (\<lambda>r. row_id r = x) (dedup rows) = find (\<lambda>r. row_id r = x) rows)
       \<and> subseq (dedup rows) rows"
proof -
  have ne: "[] \<notin> row_id ` set rows" using assms by force
  have "set (map row_id (dedup rows)) = set (map row_id rows)"
    unfolding dedup_def using ne by (simp add: dedup_loop_ids)
  moreover have "\<forall>x \<in> set (map row_id rows).
      find (\<lambda>r. row_id r = x) (dedup rows) = find (\<lambda>r. row_id r = x) rows"
  proof
    fix x assume "x \<in> set (map row_id rows)"
    with ne have "x \<noteq> []" by force
    then show "find (\<lambda>r. row_id r = x) (dedup rows) = find (\<lambda>r. row_id r = x) rows"
      unfolding dedup_def by (simp add: dedup_loop_find)
  qed
  ultimately show ?thesis
    unfolding dedup_def using dedup_loop_distinct dedup_loop_subseq by blast
qed

theorem dedup_first_occurrence_witness:
  "distinct (map row_id (dedup [\<lparr>row_id = ''base'', row_label = ''Base case'', row_source = static_base\<rparr>,
                  \<lparr>row_id = ''nf70'', row_label = ''70%'', row_source = static_index\<rparr>,
                  \<lparr>row_id = ''base'', row_label = ''Other'', row_source = static_index\<rparr>]))
 \<and> subseq (dedup [\<lparr>row_id = ''base'', row_label = ''Base case'', row_source = static_base\<rparr>,
                  \<lparr>row_id = ''nf70'', row_label = ''70%'', row_source = static_index\<rparr>,
                  \<lparr>row_id = ''base'', row_label = ''Other'', row_source = static_index\<rparr>])
         [\<lparr>row_id = ''base'', row_label = ''Base case'', row_source = static_base\<rparr>,
                  \<lparr>row_id = ''nf70'', row_label = ''70%'', row_source = static_index\<rparr>,
                  \<lparr>row_id = ''base'', row_label = ''Other'', row_source = static_index\<rparr>]
   \<and> dedup [\<lparr>row_id = ''base'', row_label = ''Base case'', row_source = static_base\<rparr>,
                  \<lparr>row_id = ''nf70'', row_label = ''70%'', row_source = static_index\<rparr>,
                  \<lparr>row_id = ''base'', row_label = ''Other'', row_source = static_index\<rparr>]
      = [\<lparr>row_id = ''base'', row_label = ''Base case'', row_source = static_base\<rparr>,
                  \<lparr>row_id = ''nf70'', row_label = ''70%'', row_source = static_index\<rparr>]"
  using dedup_first_occurrence [of "[\<lparr>row_id = ''base'', row_label = ''Base case'', row_source = static_base\<rparr>,
                  \<lparr>row_id = ''nf70'', row_label = ''70%'', row_source = static_index\<rparr>,
                  \<lparr>row_id = ''base'', row_label = ''Other'', row_source = static_index\<rparr>]"]
  by (simp add: dedup_def)

subsection \<open>The sub-range view\<close>

lemma js_slice_nonneg:
  assumes "0 \<le> start" "0 \<le> fin"
  shows "js_slice xs start fin = drop (nat start) (take (nat fin) xs)"
proof -
  have "take (nat (min fin (int (length xs)) - min start (int (length xs)))) (drop (nat (min start (int (length xs)))) xs)
        = drop (nat start) (take (nat fin) xs)"
    using assms by (cases "nat start \<le> length xs") (auto simp: drop_take min_def nat_diff_distrib')
  then show ?thesis using assms by (simp add: js_slice_def Let_def)
qed

text \<open>
  C9. For a start offset and a window size that are hour counts (not
  negative), the sub-range view is the contiguous slice of the hourly
  sequence from \<open>start\<close> to \<open>min (length, start + window)\<close>: it never
  reads past the end of the sequence, a sequence of 100 rows with window 10
  and start 95 gives 5 rows, and an empty sequence gives an empty view.
\<close>

theorem getWindowedRows_slice:
  assumes "0 \<le> start" "0 \<le> windowSize"
  shows "getWindowedRows hourly_rows windowSize start
           = drop (nat start) (take (nat (min (int (length hourly_rows)) (start + windowSize))) hourly_rows)
       \<and> length (getWindowedRows hourly_rows windowSize start)
           = nat (min (int (length hourly_rows)) (start + windowSize)) - nat start
       \<and> nat start + length (getWindowedRows hourly_rows windowSize start) \<le> max (nat start) (length hourly_rows)
       \<and> (\<forall>i < length (getWindowedRows hourly_rows windowSize start).
            getWindowedRows hourly_rows windowSize start ! i = hourly_rows ! (nat start + i))
       \<and> (length hourly_rows = 100 \<and> windowSize = 10 \<and> start = 95
            \<longrightarrow> length (getWindowedRows hourly_rows windowSize start) = 5)
       \<and> (hourly_rows = [] \<longrightarrow> getWindowedRows hourly_rows windowSize start = [])"
proof -
  let ?fin = "min (int (length hourly_rows)) (start + windowSize)"
  have eq: "getWindowedRows hourly_rows windowSize start = drop (nat start) (take (nat ?fin) hourly_rows)"
    unfolding getWindowedRows_def Let_def using assms by (intro js_slice_nonneg) auto
  have len: "length (getWindowedRows hourly_rows windowSize start) = nat ?fin - nat start"
    unfolding eq using assms by (simp add: min_def)
  have nth: "\<forall>i < length (getWindowedRows hourly_rows windowSize start).
            getWindowedRows hourly_rows windowSize start ! i = hourly_rows ! (nat start + i)"
    unfolding eq by simp
  show ?thesis using eq len nth assms by (auto simp: min_def)
qed

theorem getWindowedRows_slice_witness:
  "(0::int) \<le> 1 \<and> (0::int) \<le> 3
   \<and> getWindowedRows [10, 20, 30 :: nat] 3 1 = [20, 30]"
  using getWindowedRows_slice [of 1 3 "[10, 20, 30 :: nat]"] by simp

subsection \<open>The daily rollup\<close>

lemma DAILY_SUM_KEYS_distinct: "distinct DAILY_SUM_KEYS"
  by (simp add: DAILY_SUM_KEYS_def)

lemma soc_not_summed: "''battery_soc_mwh'' \<notin> set DAILY_SUM_KEYS"
  by (simp add: DAILY_SUM_KEYS_def)

lemma fold_zero_keys:
  "fold (\<lambda>key m. m(key \<mapsto> 0::real)) keys m k = (if k \<in> set keys then Some 0 else m k)"
  by (induction keys arbitrary: m) auto

lemma fold_add_key:
  "distinct keys \<Longrightarrow>
   fold (add_key row) keys m k =
     (if k \<in> set keys then Some (Number0 (m k) + Number0 (cols row k)) else m k)"
proof (induction keys arbitrary: m)
  case Nil
  show ?case by simp
next
  case (Cons key keys)
  then show ?case by (auto simp: add_key_def)
qed


lemma day_groups_Nil_iff: "day_groups rs = [] \<longleftrightarrow> rs = []"
  by (cases rs) (auto split: list.splits)

lemma day_groups_nonempty: "g \<in> set (day_groups rs) \<Longrightarrow> g \<noteq> []"
  by (induction rs arbitrary: g) (auto split: list.splits if_splits)


lemma day_groups_hd: "rs \<noteq> [] \<Longrightarrow> hd (hd (day_groups rs)) = hd rs"
  by (cases rs) (auto split: list.splits)



lemma day_groups_last: "rs \<noteq> [] \<Longrightarrow> last (last (day_groups rs)) = last rs"
proof (induction rs)
  case Nil
  then show ?case by simp
next
  case (Cons a rs)
  show ?case
  proof (cases "day_groups rs")
    case Nil
    then have "rs = []" by (simp add: day_groups_Nil_iff)
    then show ?thesis by simp
  next
    case (Cons h hs)
    then have ne: "rs \<noteq> []" by auto
    have hne: "h \<noteq> []" using day_groups_nonempty [of h rs] Cons by simp
    from ne Cons.IH have ih: "last (last (h # hs)) = last rs" using Cons by simp
    show ?thesis using ih ne hne Cons by (cases hs) simp_all
  qed
qed


lemma day_groups_snoc:
  "day_groups (rs @ [r]) =
     (if rs \<noteq> [] \<and> day_prefix (last rs) = day_prefix r
      then butlast (day_groups rs) @ [last (day_groups rs) @ [r]]
      else day_groups rs @ [ [r] ])"
proof (induction rs)
  case Nil
  show ?case by simp
next
  case (Cons a rs)
  show ?case
  proof (cases rs)
    case Nil
    then show ?thesis by simp
  next
    case (Cons b bs)
    then have ne: "rs \<noteq> []" by simp
    then obtain h hs where hh: "day_groups rs = h # hs"
      using day_groups_Nil_iff [of rs] by (cases "day_groups rs") auto
    have hne: "h \<noteq> []" using day_groups_nonempty [of h rs] hh by simp
    have hdh: "hd h = hd rs" using day_groups_hd [OF ne] hh by simp
    have la: "last (a # rs) = last rs" using ne by simp
    show ?thesis
    proof (cases "day_prefix (last rs) = day_prefix r")
      case True
      have step: "day_groups (rs @ [r]) = butlast (h # hs) @ [last (h # hs) @ [r]]"
        using Cons.IH ne True hh by simp
      show ?thesis
      proof (cases hs)
        case Nil
        with step hh hne hdh ne True show ?thesis by simp
      next
        case (Cons k ks)
        with step hh hne hdh ne True show ?thesis by simp
      qed
    next
      case False
      have step: "day_groups (rs @ [r]) = (h # hs) @ [ [r] ]"
        using Cons.IH ne False hh by simp
      with hh hne hdh ne False show ?thesis by simp
    qed
  qed
qed

lemma accumulate_new_acc:
  "accumulate (new_acc (day_prefix row)) row = day_total [row]"
proof -
  have "cols (accumulate (new_acc (day_prefix row)) row) = cols (day_total [row])"
  proof
    fix k
    show "cols (accumulate (new_acc (day_prefix row)) row) k = cols (day_total [row]) k"
      unfolding accumulate_def new_acc_def day_total_def
      by (simp add: fold_add_key DAILY_SUM_KEYS_distinct fold_zero_keys soc_not_summed Number0_def)
  qed
  moreover have "timestamp (accumulate (new_acc (day_prefix row)) row) = timestamp (day_total [row])"
    by (simp add: accumulate_def new_acc_def day_total_def)
  ultimately show ?thesis by simp
qed

lemma accumulate_day_total:
  assumes "g \<noteq> []"
  shows "accumulate (day_total g) row = day_total (g @ [row])"
proof -
  have "cols (accumulate (day_total g) row) = cols (day_total (g @ [row]))"
  proof
    fix k
    show "cols (accumulate (day_total g) row) k = cols (day_total (g @ [row])) k"
      unfolding accumulate_def day_total_def
      by (simp add: fold_add_key DAILY_SUM_KEYS_distinct soc_not_summed Number0_def)
  qed
  moreover have "timestamp (accumulate (day_total g) row) = timestamp (day_total (g @ [row]))"
    using assms by (simp add: accumulate_def day_total_def)
  ultimately show ?thesis by simp
qed

lemma agg_loop_append:
  "agg_loop (xs @ ys) s = (case agg_loop xs s of Inl e \<Rightarrow> Inl e | Inr s' \<Rightarrow> agg_loop ys s')"
  by (induction xs arbitrary: s) (auto split: sum.splits)

lemma list_update_last: "xs \<noteq> [] \<Longrightarrow> xs[length xs - Suc 0 := v] = butlast xs @ [v]"
  by (induction xs rule: rev_induct) auto

lemma agg_step_new_group:
  assumes "day s \<noteq> Some (day_prefix row)"
  shows "agg_step s row =
     Inr \<lparr>grouped = grouped s @ [day_total [row]], day = Some (day_prefix row),
          acc = Some (length (grouped s))\<rparr>"
  using assms accumulate_new_acc [of row]
  by (auto simp: agg_step_def Let_def day_prefix_def)

lemma agg_step_same_group:
  assumes "day s = Some (day_prefix row)" "acc s = Some (length (grouped s) - 1)" "grouped s \<noteq> []"
  shows "agg_step s row =
     Inr (s\<lparr>grouped := butlast (grouped s) @ [accumulate (last (grouped s)) row]\<rparr>)"
  using assms
  by (simp add: agg_step_def Let_def day_prefix_def list_update_last last_conv_nth)

lemma agg_loop_invariant:
  "rows \<noteq> [] \<Longrightarrow>
   agg_loop rows \<lparr>grouped = [], day = None, acc = None\<rparr> =
     Inr \<lparr>grouped = map day_total (day_groups rows), day = Some (day_prefix (last rows)),
          acc = Some (length (day_groups rows) - 1)\<rparr>"
proof (induction rows rule: rev_nonempty_induct)
  case (single x)
  show ?case using agg_step_new_group [of "\<lparr>grouped = [], day = None, acc = None\<rparr>" x] by simp
next
  case (snoc x xs)
  let ?s = "\<lparr>grouped = map day_total (day_groups xs), day = Some (day_prefix (last xs)),
          acc = Some (length (day_groups xs) - 1)\<rparr>"
  have dg: "day_groups xs \<noteq> []" using snoc.hyps by (simp add: day_groups_Nil_iff)
  have run: "agg_loop (xs @ [x]) \<lparr>grouped = [], day = None, acc = None\<rparr> = agg_step ?s x"
    using snoc.IH by (simp add: agg_loop_append split: sum.splits)
  show ?case
  proof (cases "day_prefix (last xs) = day_prefix x")
    case True
    have lne: "last (day_groups xs) \<noteq> []"
      using day_groups_nonempty [of "last (day_groups xs)" xs] dg by simp
    have "agg_step ?s x =
        Inr (?s\<lparr>grouped := butlast (grouped ?s) @ [accumulate (last (grouped ?s)) x]\<rparr>)"
      by (rule agg_step_same_group) (use True dg in simp_all)
    then show ?thesis
      unfolding run using True snoc.hyps dg lne
      by (simp add: day_groups_snoc map_butlast last_map accumulate_day_total)
  next
    case False
    then have "agg_step ?s x =
        Inr \<lparr>grouped = grouped ?s @ [day_total [x]], day = Some (day_prefix x),
          acc = Some (length (grouped ?s))\<rparr>"
      by (intro agg_step_new_group) simp
    then show ?thesis
      unfolding run using False snoc.hyps by (simp add: day_groups_snoc)
  qed
qed

lemma aggregateDaily_groups: "aggregateDaily rows = Inr (map day_total (day_groups rows))"
  by (cases "rows = []") (simp_all add: aggregateDaily_def agg_loop_invariant)

lemma day_groups_prefixes:
  "map (\<lambda>g. day_prefix (hd g)) (day_groups rs) = remdups_adj (map day_prefix rs)"
proof (induction rs)
  case Nil
  show ?case by simp
next
  case (Cons a rs)
  show ?case
  proof (cases "day_groups rs")
    case Nil
    then have "rs = []" by (simp add: day_groups_Nil_iff)
    then show ?thesis by simp
  next
    case (Cons h hs)
    with Cons.IH show ?thesis
      by (auto simp: remdups_adj_Cons split: list.splits)
  qed
qed

lemma remdups_adj_count:
  "length (remdups_adj xs) = card {i. i < length xs \<and> (i = 0 \<or> xs ! i \<noteq> xs ! (i - 1))}"
proof (induction xs rule: rev_induct)
  case Nil
  show ?case by simp
next
  case (snoc x xs)
  show ?case
  proof (cases xs rule: rev_cases)
    case Nil
    have "{i. i < Suc 0 \<and> (i = 0 \<or> [x] ! i \<noteq> [x] ! (i - Suc 0))} = {0}" by auto
    with Nil show ?thesis by simp
  next
    case (snoc ys y)
    let ?A = "{i. i < length xs \<and> (i = 0 \<or> xs ! i \<noteq> xs ! (i - 1))}"
    let ?B = "{i. i < length (xs @ [x]) \<and> (i = 0 \<or> (xs @ [x]) ! i \<noteq> (xs @ [x]) ! (i - 1))}"
    have fin: "finite ?A" by simp
    have notin: "length xs \<notin> ?A" by simp
    have last: "xs ! (length xs - 1) = y" using snoc by simp
    have pos: "0 < length xs" using snoc by simp
    have B: "?B = (if y = x then ?A else insert (length xs) ?A)"
    proof -
      have "\<And>i. i < length xs \<Longrightarrow> (xs @ [x]) ! i = xs ! i \<and> (xs @ [x]) ! (i - 1) = xs ! (i - 1)"
      proof -
        fix i assume i: "i < length xs"
        then have "i - 1 < length xs" by arith
        with i show "(xs @ [x]) ! i = xs ! i \<and> (xs @ [x]) ! (i - 1) = xs ! (i - 1)"
          by (simp only: nth_append if_True)
      qed
      moreover have "(xs @ [x]) ! (length xs) = x" by simp
      moreover have "(xs @ [x]) ! (length xs - 1) = y" using last pos by (simp add: nth_append)
      ultimately show ?thesis using pos
        by (auto simp: less_Suc_eq)
    qed
    have "length (remdups_adj (xs @ [x])) = length (remdups_adj xs) + (if y = x then 0 else 1)"
      using snoc remdups_adj_append_two [of ys y x] by simp
    then show ?thesis using snoc.IH B fin notin by simp
  qed
qed







lemma count_list_pos: "x \<in> set xs \<Longrightarrow> 0 < count_list xs x"
  by (induction xs) auto

lemma remdups_adj_revisit:
  assumes "i < k" "k < j" "j < length xs" "xs ! i = d" "xs ! j = d" "xs ! k \<noteq> d"
  shows "2 \<le> count_list (remdups_adj xs) d"
proof -
  let ?c = "xs ! k"
  have split: "xs = take k xs @ ?c # drop (Suc k) xs"
    using assms by (simp add: id_take_nth_drop)
  have "remdups_adj xs = remdups_adj (take k xs @ [?c]) @ tl (remdups_adj (?c # drop (Suc k) xs))"
    using remdups_adj_append [of "take k xs" ?c "drop (Suc k) xs"] split by simp
  then have cnt: "count_list (remdups_adj xs) d =
      count_list (remdups_adj (take k xs @ [?c])) d
      + count_list (tl (remdups_adj (?c # drop (Suc k) xs))) d"
    by simp
  have "d \<in> set (take k xs)"
    using assms by (metis in_set_conv_nth length_take less_trans min_less_iff_conj nth_take)
  then have "d \<in> set (remdups_adj (take k xs @ [?c]))" by simp
  then have one: "0 < count_list (remdups_adj (take k xs @ [?c])) d"
    by (rule count_list_pos)
  have "d \<in> set (drop (Suc k) xs)"
  proof -
    have "drop (Suc k) xs ! (j - Suc k) = xs ! j" using assms by simp
    moreover have "j - Suc k < length (drop (Suc k) xs)" using assms by simp
    ultimately show ?thesis using assms(5) by (metis nth_mem)
  qed
  then have "d \<in> set (remdups_adj (?c # drop (Suc k) xs))" by simp
  moreover have "remdups_adj (?c # drop (Suc k) xs) = ?c # tl (remdups_adj (?c # drop (Suc k) xs))"
    by simp
  ultimately have "d \<in> set (?c # tl (remdups_adj (?c # drop (Suc k) xs)))" by metis
  with assms(6) have "d \<in> set (tl (remdups_adj (?c # drop (Suc k) xs)))"
    by (metis set_ConsD)
  then have two: "0 < count_list (tl (remdups_adj (?c # drop (Suc k) xs))) d"
    by (rule count_list_pos)
  from cnt one two show ?thesis by arith
qed

text \<open>
  C10. The timestamps of the daily rollup's output are the day prefixes of
  the input with adjacent repetitions removed: a group is opened exactly at
  the first row and at every row whose day prefix differs from that of the
  row before it, so the output has as many rows as there are such positions.
  A day whose rows are separated by a row of another day appears at least
  twice in the output. The function only reads its input: every write of the
  source goes to the accumulator objects it creates.
\<close>

theorem aggregateDaily_group_boundaries:
  "\<exists>out. aggregateDaily rows = Inr out
     \<and> map timestamp out = remdups_adj (map (\<lambda>r. take 10 (timestamp r)) rows)
     \<and> length out = card {i. i < length rows \<and>
           (i = 0 \<or> take 10 (timestamp (rows ! i)) \<noteq> take 10 (timestamp (rows ! (i - 1))))}
     \<and> (\<forall>i k j. i < k \<and> k < j \<and> j < length rows
           \<and> take 10 (timestamp (rows ! i)) = take 10 (timestamp (rows ! j))
           \<and> take 10 (timestamp (rows ! k)) \<noteq> take 10 (timestamp (rows ! i))
          \<longrightarrow> 2 \<le> count_list (map timestamp out) (take 10 (timestamp (rows ! i))))"
proof -
  let ?out = "map day_total (day_groups rows)"
  let ?ps = "map (\<lambda>r. take 10 (timestamp r)) rows"
  have ps: "?ps = map day_prefix rows" by (simp add: day_prefix_def)
  have ts: "map timestamp ?out = remdups_adj ?ps"
    unfolding ps using day_groups_prefixes [of rows] by (simp add: day_total_def comp_def)
  have "length ?out = length (remdups_adj ?ps)" using ts by (metis length_map)
  also have "\<dots> = card {i. i < length ?ps \<and> (i = 0 \<or> ?ps ! i \<noteq> ?ps ! (i - 1))}"
    by (rule remdups_adj_count)
  also have "{i. i < length ?ps \<and> (i = 0 \<or> ?ps ! i \<noteq> ?ps ! (i - 1))}
      = {i. i < length rows \<and>
           (i = 0 \<or> take 10 (timestamp (rows ! i)) \<noteq> take 10 (timestamp (rows ! (i - 1))))}"
  proof -
    have "\<And>i. i < length rows \<Longrightarrow> ?ps ! i = take 10 (timestamp (rows ! i))
        \<and> ?ps ! (i - 1) = take 10 (timestamp (rows ! (i - 1)))"
    proof -
      fix i assume i: "i < length rows"
      then have "i - 1 < length rows" by arith
      with i show "?ps ! i = take 10 (timestamp (rows ! i))
        \<and> ?ps ! (i - 1) = take 10 (timestamp (rows ! (i - 1)))"
        by (simp only: nth_map)
    qed
    then show ?thesis by auto
  qed
  finally have len: "length ?out = card {i. i < length rows \<and>
           (i = 0 \<or> take 10 (timestamp (rows ! i)) \<noteq> take 10 (timestamp (rows ! (i - 1))))}" .
  have rev: "\<forall>i k j. i < k \<and> k < j \<and> j < length rows
           \<and> take 10 (timestamp (rows ! i)) = take 10 (timestamp (rows ! j))
           \<and> take 10 (timestamp (rows ! k)) \<noteq> take 10 (timestamp (rows ! i))
          \<longrightarrow> 2 \<le> count_list (map timestamp ?out) (take 10 (timestamp (rows ! i)))"
  proof (intro allI impI)
    fix i k j
    assume h: "i < k \<and> k < j \<and> j < length rows
           \<and> take 10 (timestamp (rows ! i)) = take 10 (timestamp (rows ! j))
           \<and> take 10 (timestamp (rows ! k)) \<noteq> take 10 (timestamp (rows ! i))"
    have "2 \<le> count_list (remdups_adj ?ps) (take 10 (timestamp (rows ! i)))"
    proof (rule remdups_adj_revisit [of i k j])
      show "i < k" "k < j" using h by simp_all
      show "j < length ?ps" using h by simp
      show "?ps ! i = take 10 (timestamp (rows ! i))" using h by simp
      show "?ps ! j = take 10 (timestamp (rows ! i))" using h by simp
      show "?ps ! k \<noteq> take 10 (timestamp (rows ! i))" using h by auto
    qed
    then show "2 \<le> count_list (map timestamp ?out) (take 10 (timestamp (rows ! i)))"
      by (simp only: ts)
  qed
  show ?thesis
    using aggregateDaily_groups [of rows] ts len rev by blast
qed

theorem aggregateDaily_group_boundaries_witness:
  "map timestamp (map day_total (day_groups
       [hour ''2024-01-01 22:00'' 1 0, hour ''2024-01-02 00:00'' 2 0, hour ''2024-01-01 23:00'' 3 0]))
     = [''2024-01-01'', ''2024-01-02'', ''2024-01-01'']
   \<and> aggregateDaily
       [hour ''2024-01-01 22:00'' 1 0, hour ''2024-01-02 00:00'' 2 0, hour ''2024-01-01 23:00'' 3 0]
     = Inr [day_total [hour ''2024-01-01 22:00'' 1 0], day_total [hour ''2024-01-02 00:00'' 2 0],
            day_total [hour ''2024-01-01 23:00'' 3 0]]"
  using aggregateDaily_group_boundaries
     [of "[hour ''2024-01-01 22:00'' 1 0, hour ''2024-01-02 00:00'' 2 0, hour ''2024-01-01 23:00'' 3 0]"]
  by (simp add: hour_def day_prefix_def day_total_def aggregateDaily_groups)

subsection \<open>The cost breakdown\<close>

lemma waterfall_loop_eq:
  "waterfall_loop sc steps t r =
     (\<lparr>trace_x = trace_x t @ map step_label steps,
       trace_y = trace_y t @ scaled sc steps,
       trace_base = trace_base t @ map (\<lambda>i. r + sum_list (take i (scaled sc steps))) [0..<length steps],
       trace_colors = trace_colors t @
         map (\<lambda>st. case TECH_COST_COLORS (step_technology st) of None \<Rightarrow> ''#5ec2ff'' | Some c \<Rightarrow> c) steps\<rparr>,
      r + sum_list (scaled sc steps))"
proof (induction steps arbitrary: t r)
  case Nil
  show ?case by (simp add: scaled_def)
next
  case (Cons st steps)
  show ?case
    by (simp add: Cons.IH scaled_def Let_def map_upt_Suc add.assoc del: upt_Suc)
qed

lemma waterfall_eq:
  "waterfall sc steps =
     \<lparr>trace_x = map step_label steps @ [''Total System Cost''],
      trace_y = scaled sc steps @ [sum_list (scaled sc steps)],
      trace_base = map (\<lambda>i. sum_list (take i (scaled sc steps))) [0..<length steps] @ [0],
      trace_colors =
         map (\<lambda>st. case TECH_COST_COLORS (step_technology st) of None \<Rightarrow> ''#5ec2ff'' | Some c \<Rightarrow> c) steps
         @ [''#f2a13b'']\<rparr>"
  by (simp add: waterfall_def waterfall_loop_eq)

lemma concat_if_filter:
  "concat (map (\<lambda>c. if P c then [] else [g c]) cs) = map g (filter (\<lambda>c. \<not> P c) cs)"
  by (induction cs) auto

lemma nested_loops_product:
  "concat (map (\<lambda>t. concat (map (\<lambda>c. if P t c then [] else [g t c]) cs)) ts)
     = map (\<lambda>p. g (fst p) (snd p)) (filter (\<lambda>p. \<not> P (fst p) (snd p)) (List.product ts cs))"
proof (induction ts)
  case Nil
  show ?case by simp
next
  case (Cons t ts)
  have "concat (map (\<lambda>c. if P t c then [] else [g t c]) cs)
      = map (\<lambda>p. g (fst p) (snd p)) (filter (\<lambda>p. \<not> P (fst p) (snd p)) (map (Pair t) cs))"
    by (simp add: concat_if_filter filter_map comp_def)
  with Cons.IH show ?case by simp
qed

lemma tech_steps_eq:
  "tech_steps cs =
     map (\<lambda>p. \<lparr>step_label = cost_label p, step_value = valueFor cs (fst p) (snd p),
                step_technology = fst p\<rparr>)
       (filter (\<lambda>p. \<not> \<bar>valueFor cs (fst p) (snd p)\<bar> < 0.5) (List.product techOrder componentOrder))"
  unfolding tech_steps_def Let_def cost_label_def
  by (rule nested_loops_product
       [of "\<lambda>t c. \<bar>valueFor cs t c\<bar> < 0.5"
           "\<lambda>t c. \<lparr>step_label = techLabel t @ '' '' @ componentLabel c,
                    step_value = valueFor cs t c, step_technology = t\<rparr>"])

lemma labels_distinct:
  "distinct (map cost_label (List.product techOrder componentOrder)
             @ [''Unserved Penalty'', ''Total System Cost''])"
  by (simp add: techOrder_def componentOrder_def cost_label_def techLabel_def componentLabel_def
      lookup_label_def)

lemma cost_label_inj:
  assumes "p \<in> set (List.product techOrder componentOrder)"
    and "q \<in> set (List.product techOrder componentOrder)"
    and "cost_label p = cost_label q"
  shows "p = q"
proof -
  have "distinct (map cost_label (List.product techOrder componentOrder))"
    using labels_distinct by simp
  then have "inj_on cost_label (set (List.product techOrder componentOrder))"
    by (simp add: distinct_map)
  with assms show ?thesis by (auto dest: inj_onD)
qed

lemma cost_label_not_special:
  assumes "p \<in> set (List.product techOrder componentOrder)"
  shows "cost_label p \<noteq> ''Unserved Penalty''" "cost_label p \<noteq> ''Total System Cost''"
proof -
  have disj: "set (map cost_label (List.product techOrder componentOrder))
          \<inter> set [''Unserved Penalty'', ''Total System Cost''] = {}"
    using labels_distinct by (simp only: distinct_append)
  have "cost_label p \<in> cost_label ` set (List.product techOrder componentOrder)"
    using assms by (rule imageI)
  then have "cost_label p \<in> set (map cost_label (List.product techOrder componentOrder))"
    by (simp only: set_map)
  with disj have "cost_label p \<notin> set [''Unserved Penalty'', ''Total System Cost'']"
    by blast
  then show "cost_label p \<noteq> ''Unserved Penalty''" "cost_label p \<noteq> ''Total System Cost''"
    by simp_all
qed

lemma foldl_plus_sum_list:
  "foldl (\<lambda>total row. total + f row) a rows = a + sum_list (map f rows)" for a :: real
  by (induction rows arbitrary: a) simp_all

lemma valueFor_matching_sum: "valueFor cs tech cname = matching_sum cs tech cname"
  by (simp add: valueFor_def matching_sum_def foldl_plus_sum_list)

lemma unservedPenalty_penalty_sum: "unservedPenalty cs = penalty_sum cs"
  by (simp add: unservedPenalty_def penalty_sum_def foldl_plus_sum_list)

lemma tech_steps_retained:
  "tech_steps cs =
     map (\<lambda>p. \<lparr>step_label = cost_label p, step_value = matching_sum cs (fst p) (snd p),
                step_technology = fst p\<rparr>) (retained_pairs cs)"
proof -
  have "(\<lambda>p. \<not> \<bar>matching_sum cs (fst p) (snd p)\<bar> < 0.5)
      = (\<lambda>p. \<bar>matching_sum cs (fst p) (snd p)\<bar> \<ge> 0.5)"
    by (rule ext) auto
  then show ?thesis
    by (simp add: tech_steps_eq valueFor_matching_sum retained_pairs_def)
qed

lemma build_steps_labels: "map step_label (build_steps cs) = retained_labels cs"
  by (simp add: build_steps_def tech_steps_retained unservedPenalty_penalty_sum
      retained_labels_def comp_def)

lemma build_steps_values: "map step_value (build_steps cs) = retained_values cs"
  by (simp add: build_steps_def tech_steps_retained unservedPenalty_penalty_sum
      retained_values_def comp_def)

lemma scaled_build_steps:
  "scaled sc (build_steps cs) = map (\<lambda>v. v * sc) (retained_values cs)"
proof -
  have "scaled sc (build_steps cs) = map (\<lambda>v. v * sc) (map step_value (build_steps cs))"
    by (simp add: scaled_def comp_def)
  then show ?thesis by (simp only: build_steps_values)
qed

lemma retained_label_present:
  assumes "tech \<in> set techOrder" "cname \<in> set componentOrder"
  shows "techLabel tech @ '' '' @ componentLabel cname \<in> set (retained_labels cs)
           \<longleftrightarrow> \<bar>matching_sum cs tech cname\<bar> \<ge> 0.5"
proof -
  let ?p = "(tech, cname)"
  have p: "?p \<in> set (List.product techOrder componentOrder)" using assms by simp
  have l: "cost_label ?p = techLabel tech @ '' '' @ componentLabel cname"
    by (simp add: cost_label_def)
  show ?thesis
  proof
    assume "techLabel tech @ '' '' @ componentLabel cname \<in> set (retained_labels cs)"
    then have "cost_label ?p \<in> set (map cost_label (retained_pairs cs))"
      using cost_label_not_special(1) [OF p] unfolding l [symmetric]
      by (auto simp: retained_labels_def split: if_splits)
    then obtain q where q: "q \<in> set (retained_pairs cs)" "cost_label ?p = cost_label q"
      by auto
    then have "q \<in> set (List.product techOrder componentOrder)"
      and v: "\<bar>matching_sum cs (fst q) (snd q)\<bar> \<ge> 0.5"
      by (simp_all add: retained_pairs_def)
    with p q(2) have "?p = q" using cost_label_inj by blast
    with v show "\<bar>matching_sum cs tech cname\<bar> \<ge> 0.5" by auto
  next
    assume "\<bar>matching_sum cs tech cname\<bar> \<ge> 0.5"
    with p have "?p \<in> set (retained_pairs cs)" by (simp add: retained_pairs_def)
    then have "cost_label ?p \<in> set (map cost_label (retained_pairs cs))" by simp
    then show "techLabel tech @ '' '' @ componentLabel cname \<in> set (retained_labels cs)"
      unfolding l by (simp add: retained_labels_def)
  qed
qed

lemma retained_values_threshold: "v \<in> set (retained_values cs) \<Longrightarrow> \<bar>v\<bar> \<ge> 0.5"
  by (auto simp: retained_values_def retained_pairs_def split: if_splits)

lemma renderCostBreakdown_detailed:
  "hasDetailed cs \<Longrightarrow>
   renderCostBreakdown (Some s) mode cs =
     Some (Waterfall (waterfall (scale mode s) (build_steps cs)) (yAxisTitle mode s))"
  by (simp add: renderCostBreakdown_def)

text \<open>
  C3. For every list of cost rows of the detailed schema, the waterfall that
  is drawn has a step for a technology and component pair exactly when the
  rows matching the pair sum to an absolute value of at least 0.5 (a pair
  whose rows sum to less is absent); every retained value has an absolute
  value of at least 0.5; the labels drawn are those of the retained steps
  followed by "Total System Cost"; the values drawn are the retained steps'
  sums over their matching rows, scaled, followed by the sum of all of them;
  the base of each retained step is the sum of the scaled values of the
  retained steps before it, and the base of the last step is 0.
\<close>

theorem cost_waterfall_detailed:
  assumes "hasDetailed cs"
  shows "\<exists>t. renderCostBreakdown (Some s) mode cs = Some (Waterfall t (yAxisTitle mode s))
     \<and> (\<forall>tech \<in> set techOrder. \<forall>cname \<in> set componentOrder.
          (techLabel tech @ '' '' @ componentLabel cname \<in> set (trace_x t))
            = (\<not> \<bar>matching_sum cs tech cname\<bar> < 0.5))
     \<and> (\<forall>v \<in> set (retained_values cs). \<bar>v\<bar> \<ge> 0.5)
     \<and> trace_x t = retained_labels cs @ [''Total System Cost'']
     \<and> trace_y t = map (\<lambda>v. v * scale mode s) (retained_values cs)
                    @ [sum_list (map (\<lambda>v. v * scale mode s) (retained_values cs))]
     \<and> trace_base t
         = map (\<lambda>i. sum_list (take i (map (\<lambda>v. v * scale mode s) (retained_values cs))))
             [0..<length (retained_values cs)]
           @ [0]"
proof -
  let ?t = "waterfall (scale mode s) (build_steps cs)"
  let ?ys = "map (\<lambda>v. v * scale mode s) (retained_values cs)"
  have r: "renderCostBreakdown (Some s) mode cs = Some (Waterfall ?t (yAxisTitle mode s))"
    using assms by (rule renderCostBreakdown_detailed)
  have len: "length (build_steps cs) = length (retained_values cs)"
    using build_steps_values [of cs] by (metis length_map)
  have x: "trace_x ?t = retained_labels cs @ [''Total System Cost'']"
    by (simp add: waterfall_eq build_steps_labels)
  have y: "trace_y ?t = ?ys @ [sum_list ?ys]"
    by (simp add: waterfall_eq scaled_build_steps)
  have b: "trace_base ?t
      = map (\<lambda>i. sum_list (take i ?ys)) [0..<length (retained_values cs)] @ [0]"
    by (simp add: waterfall_eq scaled_build_steps len)
  have labels: "\<forall>tech \<in> set techOrder. \<forall>cname \<in> set componentOrder.
          (techLabel tech @ '' '' @ componentLabel cname \<in> set (trace_x ?t))
            = (\<not> \<bar>matching_sum cs tech cname\<bar> < 0.5)"
  proof (intro ballI)
    fix tech cname
    assume tc: "tech \<in> set techOrder" "cname \<in> set componentOrder"
    then have "(tech, cname) \<in> set (List.product techOrder componentOrder)" by simp
    from cost_label_not_special(2) [OF this]
    have "techLabel tech @ '' '' @ componentLabel cname \<noteq> ''Total System Cost''"
      by (simp add: cost_label_def)
    with retained_label_present [OF tc, of cs]
    show "(techLabel tech @ '' '' @ componentLabel cname \<in> set (trace_x ?t))
            = (\<not> \<bar>matching_sum cs tech cname\<bar> < 0.5)"
      unfolding x by auto
  qed
  have thr: "\<forall>v \<in> set (retained_values cs). \<bar>v\<bar> \<ge> 0.5"
    using retained_values_threshold by blast
  from r labels thr x y b show ?thesis by blast
qed

theorem cost_waterfall_detailed_witness:
  "renderCostBreakdown (Some (served 1000 1000)) ''total''
      [cost ''solar'' ''capex_annualized'' 60, cost ''solar'' ''fixed_om'' 0.25,
       cost ''battery'' ''capex_annualized'' 0.75, cost ''coal'' ''var_om'' 40,
       cost ''solar'' ''fixed_om'' 0.25, cost ''battery'' ''capex_annualized'' (- 0.5),
       cost ''unserved'' ''unserved_penalty'' 4, cost ''unserved'' ''unserved_penalty'' 6]
    = Some (Waterfall
        \<lparr>trace_x = [''Solar CAPEX (annualized)'', ''Solar Fixed O&M'', ''Coal Var O&M'',
                    ''Unserved Penalty'', ''Total System Cost''],
         trace_y = [60, 0.5, 40, 10, 110.5], trace_base = [0, 60, 60.5, 100.5, 0],
         trace_colors = [''#ffcf5c'', ''#ffcf5c'', ''#7fb3ff'', ''#ff4d6d'', ''#f2a13b'']\<rparr> ''USD'')
   \<and> matching_sum
        [cost ''solar'' ''capex_annualized'' 60, cost ''solar'' ''fixed_om'' 0.25,
         cost ''battery'' ''capex_annualized'' 0.75, cost ''coal'' ''var_om'' 40,
         cost ''solar'' ''fixed_om'' 0.25, cost ''battery'' ''capex_annualized'' (- 0.5),
         cost ''unserved'' ''unserved_penalty'' 4, cost ''unserved'' ''unserved_penalty'' 6]
        ''battery'' ''capex_annualized'' = 0.25"
  using cost_waterfall_detailed [of
      "[cost ''solar'' ''capex_annualized'' 60, cost ''solar'' ''fixed_om'' 0.25,
       cost ''battery'' ''capex_annualized'' 0.75, cost ''coal'' ''var_om'' 40,
       cost ''solar'' ''fixed_om'' 0.25, cost ''battery'' ''capex_annualized'' (- 0.5),
       cost ''unserved'' ''unserved_penalty'' 4, cost ''unserved'' ''unserved_penalty'' 6]"
      "served 1000 1000" "''total''"]
  by (simp add: renderCostBreakdown_def hasDetailed_def cost_def served_def waterfall_def
      build_steps_def tech_steps_def techOrder_def componentOrder_def valueFor_def
      unservedPenalty_def Number0_def techLabel_def componentLabel_def lookup_label_def
      TECH_COST_COLORS_def scale_def usePerMwh_def yAxisTitle_def Let_def matching_sum_def)

lemma scaled_divide: "scaled (1 / v) steps = map (\<lambda>a. a / v) (scaled 1 steps)"
  by (simp add: scaled_def)

lemma sum_list_divide: "sum_list (map (\<lambda>a. a / v) xs) = sum_list xs / (v::real)"
  by (induction xs) (simp_all add: add_divide_distrib)

lemma waterfall_divide:
  "waterfall (1 / v) steps =
     (waterfall 1 steps)\<lparr>trace_y := map (\<lambda>a. a / v) (trace_y (waterfall 1 steps)),
                          trace_base := map (\<lambda>a. a / v) (trace_base (waterfall 1 steps))\<rparr>"
  unfolding waterfall_eq scaled_divide
  by (simp add: sum_list_divide take_map)

lemma servedEnergy_positive:
  "served_energy_mwh s = Some v \<Longrightarrow> 0 < v \<Longrightarrow> servedEnergy s = v"
  by (simp add: servedEnergy_def)

lemma servedEnergy_zero:
  "Number0 (served_energy_mwh s) = 0 \<Longrightarrow> Number0 (total_demand_mwh s) = 0 \<Longrightarrow> servedEnergy s = 0"
  by (simp add: servedEnergy_def Number0_def split: option.splits)

text \<open>
  C4, as amended. The absolute rendering (mode "total") has scale 1. In
  per-unit mode with a positive \<open>served_energy_mwh\<close>, every step value,
  every running offset and the total are those of the absolute rendering
  divided by the served energy. When \<open>served_energy_mwh\<close> and
  \<open>total_demand_mwh\<close> are both zero or absent, the scaling is skipped and
  the rendering is the absolute one. Served energy 1000 and a total cost of
  100000 give a per-unit total of 100.
\<close>

theorem cost_unit_scaling:
  "scale ''total'' s = 1
   \<and> (mode = ''per_mwh'' \<and> served_energy_mwh s = Some v \<and> 0 < v \<longrightarrow>
        renderCostBreakdown (Some s) mode cs
          = map_option (divide_plot v) (renderCostBreakdown (Some s) ''total'' cs))
   \<and> (Number0 (served_energy_mwh s) = 0 \<and> Number0 (total_demand_mwh s) = 0 \<longrightarrow>
        renderCostBreakdown (Some s) mode cs = renderCostBreakdown (Some s) ''total'' cs)"
proof -
  have tot: "scale ''total'' s = 1" "yAxisTitle ''total'' s = ''USD''"
    by (simp_all add: scale_def yAxisTitle_def usePerMwh_def)
  have per: "renderCostBreakdown (Some s) mode cs
          = map_option (divide_plot v) (renderCostBreakdown (Some s) ''total'' cs)"
    if h: "mode = ''per_mwh'' \<and> served_energy_mwh s = Some v \<and> 0 < v"
  proof -
    have se: "servedEnergy s = v" using h by (simp add: servedEnergy_positive)
    have sc: "scale mode s = 1 / v" "yAxisTitle mode s = ''USD per MWh served''"
      using h se by (simp_all add: scale_def yAxisTitle_def usePerMwh_def)
    show ?thesis
    proof (cases "hasDetailed cs")
      case True
      then show ?thesis
        by (simp add: renderCostBreakdown_def sc tot divide_plot_def waterfall_divide)
    next
      case False
      then show ?thesis
        by (simp add: renderCostBreakdown_def sc tot divide_plot_def Let_def)
    qed
  qed
  have zero: "renderCostBreakdown (Some s) mode cs = renderCostBreakdown (Some s) ''total'' cs"
    if h: "Number0 (served_energy_mwh s) = 0 \<and> Number0 (total_demand_mwh s) = 0"
  proof -
    have "servedEnergy s = 0" using h by (simp add: servedEnergy_zero)
    then have "scale mode s = 1" "yAxisTitle mode s = ''USD''"
      by (simp_all add: scale_def yAxisTitle_def usePerMwh_def)
    then show ?thesis by (simp add: renderCostBreakdown_def tot)
  qed
  from tot(1) per zero show ?thesis by blast
qed

theorem cost_unit_scaling_witness:
  "renderCostBreakdown (Some (served 1000 1200)) ''per_mwh''
      [cost ''solar'' ''capex_annualized'' 60000, cost ''coal'' ''var_om'' 40000]
    = Some (Waterfall
        \<lparr>trace_x = [''Solar CAPEX (annualized)'', ''Coal Var O&M'', ''Total System Cost''],
         trace_y = [60, 40, 100], trace_base = [0, 60, 0],
         trace_colors = [''#ffcf5c'', ''#7fb3ff'', ''#f2a13b'']\<rparr> ''USD per MWh served'')
   \<and> renderCostBreakdown (Some (served 0 0)) ''per_mwh''
      [cost ''solar'' ''capex_annualized'' 60000, cost ''coal'' ''var_om'' 40000]
    = Some (Waterfall
        \<lparr>trace_x = [''Solar CAPEX (annualized)'', ''Coal Var O&M'', ''Total System Cost''],
         trace_y = [60000, 40000, 100000], trace_base = [0, 60000, 0],
         trace_colors = [''#ffcf5c'', ''#7fb3ff'', ''#f2a13b'']\<rparr> ''USD'')"
  using cost_unit_scaling [of "served 1000 1200" "''per_mwh''" 1000
      "[cost ''solar'' ''capex_annualized'' 60000, cost ''coal'' ''var_om'' 40000]"]
    cost_unit_scaling [of "served 0 0" "''per_mwh''" 1
      "[cost ''solar'' ''capex_annualized'' 60000, cost ''coal'' ''var_om'' 40000]"]
  by (simp add: renderCostBreakdown_def hasDetailed_def cost_def served_def waterfall_def
      build_steps_def tech_steps_def techOrder_def componentOrder_def valueFor_def
      unservedPenalty_def Number0_def techLabel_def componentLabel_def lookup_label_def
      TECH_COST_COLORS_def scale_def usePerMwh_def yAxisTitle_def Let_def divide_plot_def)

text \<open>
  C4 as stated fails: with a served energy of zero and a total demand of
  1000, per-unit mode does not skip the scaling; the values are divided by
  the total demand, which the source falls back to.
\<close>

theorem zero_served_energy_still_scaled:
  "renderCostBreakdown (Some (served 0 1000)) ''per_mwh''
      [cost ''solar'' ''capex_annualized'' 100000]
    = Some (Waterfall
        \<lparr>trace_x = [''Solar CAPEX (annualized)'', ''Total System Cost''],
         trace_y = [100, 100], trace_base = [0, 0],
         trace_colors = [''#ffcf5c'', ''#f2a13b'']\<rparr> ''USD per MWh served'')
   \<and> served_energy_mwh (served 0 1000) = Some 0"
  by (simp add: renderCostBreakdown_def hasDetailed_def cost_def served_def waterfall_def
      build_steps_def tech_steps_def techOrder_def componentOrder_def valueFor_def
      unservedPenalty_def Number0_def techLabel_def componentLabel_def lookup_label_def
      TECH_COST_COLORS_def scale_def usePerMwh_def yAxisTitle_def Let_def servedEnergy_def)

subsection \<open>The source resolver\<close>









subsection \<open>The comparison aggregator\<close>

lemma comparison_task_rejects:
  assumes "retrieval_rejects srv use_api row"
  shows "fulfilled_value (comparison_task srv use_api row) = None"
proof (cases "summary_retrieval srv use_api row")
  case (Inl e)
  then show ?thesis by (simp add: comparison_task_def fulfilled_value_def)
next
  case (Inr p)
  with assms have "p = None" "use_api"
    by (cases p; simp add: retrieval_rejects_def)+
  with Inr show ?thesis by (simp add: comparison_task_def fulfilled_value_def)
qed

lemma comparison_task_fulfils:
  assumes "\<not> retrieval_rejects srv use_api row"
  shows "\<exists>r. fulfilled_value (comparison_task srv use_api row) = Some r \<and> tagged srv use_api r row"
proof -
  from assms obtain p where p: "summary_retrieval srv use_api row = Inr p"
    by (cases "summary_retrieval srv use_api row") (simp_all add: retrieval_rejects_def)
  show ?thesis
  proof (cases p)
    case None
    with p assms have "\<not> use_api" by (simp add: retrieval_rejects_def)
    with p None show ?thesis
      by (simp add: comparison_task_def fulfilled_value_def tagged_def str_or_def)
  next
    case (Some payload)
    show ?thesis
    proof (cases use_api)
      case True
      with p Some show ?thesis
        by (cases "scenario_id payload")
           (simp_all add: comparison_task_def fulfilled_value_def tagged_def str_or_def)
    next
      case False
      with p Some show ?thesis
        by (simp add: comparison_task_def fulfilled_value_def tagged_def str_or_def)
    qed
  qed
qed

lemma comparison_fan_out:
  "length (List.map_filter fulfilled_value (map (comparison_task srv use_api) rows))
     = length (filter (\<lambda>row. \<not> retrieval_rejects srv use_api row) rows)
   \<and> list_all2 (tagged srv use_api)
        (List.map_filter fulfilled_value (map (comparison_task srv use_api) rows))
        (filter (\<lambda>row. \<not> retrieval_rejects srv use_api row) rows)"
proof (induction rows)
  case Nil
  show ?case by (simp add: List.map_filter_simps)
next
  case (Cons row rows)
  show ?case
  proof (cases "retrieval_rejects srv use_api row")
    case True
    with Cons.IH comparison_task_rejects [OF True] show ?thesis
      by (simp add: List.map_filter_simps)
  next
    case False
    from comparison_task_fulfils [OF False] obtain r where
      "fulfilled_value (comparison_task srv use_api row) = Some r" "tagged srv use_api r row"
      by blast
    with Cons.IH False show ?thesis by (simp add: List.map_filter_simps)
  qed
qed

text \<open>
  C7, as amended. The comparison aggregator never fails: for every catalog,
  the failure count is the number of catalog rows whose summary retrieval
  rejects, the comparison list has one entry for each of the other rows, in
  catalog order, and each entry is the retrieved summary tagged with the
  row's label (an id when the label is empty) and with a scenario id: the
  row's id in static mode; in API mode the id the summary itself reports,
  and the row's id when it reports none. A summary that is \<^verbatim>\<open>null\<close>
  counts as a rejection in API mode, where reading its id throws, and as a
  summary with no property in static mode.
\<close>

theorem comparison_partial_failures:
  "comparisonLoadFailures (loadComparisonData srv g)
     = int (length (filter (retrieval_rejects srv (useApiBackend g)) (scenarios g)))
   \<and> int (length (comparisonSummaries (loadComparisonData srv g)))
     = int (length (scenarios g))
       - int (length (filter (retrieval_rejects srv (useApiBackend g)) (scenarios g)))
   \<and> list_all2 (tagged srv (useApiBackend g))
        (comparisonSummaries (loadComparisonData srv g))
        (filter (\<lambda>row. \<not> retrieval_rejects srv (useApiBackend g) row) (scenarios g))"
proof -
  let ?rej = "retrieval_rejects srv (useApiBackend g)"
  have split: "length (scenarios g) = length (filter ?rej (scenarios g))
      + length (filter (\<lambda>row. \<not> ?rej row) (scenarios g))"
    using sum_length_filter_compl [of ?rej "scenarios g"] by simp
  from comparison_fan_out [of srv "useApiBackend g" "scenarios g"] split
  show ?thesis by (simp add: loadComparisonData_def Let_def)
qed

theorem comparison_partial_failures_witness:
  "comparisonLoadFailures (loadComparisonData
       (\<lambda>sid. one_summary (if sid = ''nf90'' then Status 500 [] else Body (Some empty_summary)))
       (initial_globals\<lparr>scenarios := map scenario [''nf70'', ''nf80'', ''nf90'', ''nf95'', ''nf99'']\<rparr>))
     = 1
   \<and> map scenario_label (comparisonSummaries (loadComparisonData
       (\<lambda>sid. one_summary (if sid = ''nf90'' then Status 500 [] else Body (Some empty_summary)))
       (initial_globals\<lparr>scenarios := map scenario [''nf70'', ''nf80'', ''nf90'', ''nf95'', ''nf99'']\<rparr>)))
     = [''nf70'', ''nf80'', ''nf95'', ''nf99'']"
  using comparison_partial_failures [of
       "\<lambda>sid. one_summary (if sid = ''nf90'' then Status 500 [] else Body (Some empty_summary))"
       "initial_globals\<lparr>scenarios := map scenario [''nf70'', ''nf80'', ''nf90'', ''nf95'', ''nf99'']\<rparr>"]
  by (simp add: loadComparisonData_def comparison_task_def summary_retrieval_def one_summary_def
      initial_globals_def scenario_def fulfilled_value_def List.map_filter_simps str_or_def
      Let_def)

text \<open>
  C7 as stated fails: in API mode a summary that reports the scenario id
  "nf-70" for the catalog row "nf70" is listed under the reported id, not
  under the id of the row it was retrieved for.
\<close>

theorem comparison_row_takes_reported_id:
  "map (\<lambda>r. scenario_id (cmp_summary r)) (comparisonSummaries (loadComparisonData
       (\<lambda>sid. one_summary (Body (Some (empty_summary\<lparr>scenario_id := Some ''nf-70''\<rparr>))))
       (initial_globals\<lparr>scenarios := [scenario ''nf70''], useApiBackend := True\<rparr>)))
     = [Some ''nf-70'']
   \<and> map row_id (scenarios (initial_globals\<lparr>scenarios := [scenario ''nf70''], useApiBackend := True\<rparr>))
     = [''nf70'']"
  by (simp add: loadComparisonData_def comparison_task_def summary_retrieval_def one_summary_def
      initial_globals_def scenario_def fulfilled_value_def List.map_filter_simps str_or_def
      Let_def empty_summary_def)

subsection \<open>The scenario data loader and scenario switches\<close>

lemma UNIV_retrieval: "UNIV = {R_summary, R_hourly, R_cost, R_assumptions}"
proof -
  have "\<And>k. k \<in> {R_summary, R_hourly, R_cost, R_assumptions}"
  proof -
    fix k show "k \<in> {R_summary, R_hourly, R_cost, R_assumptions}" by (cases k) simp_all
  qed
  then show ?thesis by blast
qed

lemma settle_one_rejected:
  "settle_one k rs vs = Inl e \<longleftrightarrow> rejected k rs = Some e"
proof -
  obtain a b c d where rs: "rs = (a, b, c, d)" by (cases rs) auto
  obtain w x y z where vs: "vs = (w, x, y, z)" by (cases vs) auto
  show ?thesis unfolding rs vs by (cases k) (auto split: sum.splits)
qed

lemma settle_one_fulfilled:
  assumes "settle_one k rs vs = Inr vs'" "consistent rs vs"
  shows "consistent rs vs'" "filled vs' = insert k (filled vs)" "rejected k rs = None"
proof -
  obtain a b c d where rs: "rs = (a, b, c, d)" by (cases rs) auto
  obtain w x y z where vs: "vs = (w, x, y, z)" by (cases vs) auto
  from assms show "consistent rs vs'" unfolding rs vs
    by (cases k) (auto split: sum.splits)
  from assms show "filled vs' = insert k (filled vs)" unfolding rs vs
    by (cases k) (auto split: sum.splits)
  from assms show "rejected k rs = None" unfolding rs vs
    by (cases k) (auto split: sum.splits)
qed

lemma complete_Some:
  assumes "complete vs = Some vals" "consistent rs vs"
  shows "rs = (Inr (fst vals), Inr (fst (snd vals)), Inr (fst (snd (snd vals))),
               Inr (snd (snd (snd vals))))"
    and "filled vs = UNIV"
proof -
  obtain a b c d where rs: "rs = (a, b, c, d)" by (cases rs) auto
  obtain w x y z where vs: "vs = (w, x, y, z)" by (cases vs) auto
  from assms(1) obtain w' x' y' z' where all: "w = Some w'" "x = Some x'" "y = Some y'" "z = Some z'"
    unfolding vs by (cases w; cases x; cases y; cases z) simp_all
  with assms show "rs = (Inr (fst vals), Inr (fst (snd vals)), Inr (fst (snd (snd vals))),
               Inr (snd (snd (snd vals))))"
    unfolding rs vs by auto
  from all show "filled vs = UNIV" unfolding vs by (simp add: UNIV_retrieval) blast
qed

lemma complete_None: "complete vs = None \<longleftrightarrow> filled vs \<noteq> UNIV"
proof -
  obtain w x y z where vs: "vs = (w, x, y, z)" by (cases vs) auto
  show ?thesis unfolding vs UNIV_retrieval
    by (cases w; cases x; cases y; cases z) auto
qed

lemma rejected_all_Inr:
  "rejected k (Inr w, Inr x, Inr y, Inr z) = None"
  by (cases k) simp_all

lemma Promise_all_rejects:
  assumes "consistent rs vs" "k \<in> set order" "rejected k rs = Some e"
  shows "\<exists>k' e'. k' \<in> set order \<and> rejected k' rs = Some e'
           \<and> Promise_all order rs vs = Some (Inl e')"
  using assms
proof (induction order arbitrary: vs)
  case Nil
  then show ?case by simp
next
  case (Cons j order)
  show ?case
  proof (cases "settle_one j rs vs")
    case (Inl e')
    then have "rejected j rs = Some e'" by (simp add: settle_one_rejected)
    with Inl show ?thesis by auto
  next
    case (Inr vs')
    note f = settle_one_fulfilled [OF Inr Cons.prems(1)]
    have "complete vs' = None"
    proof (cases "complete vs'")
      case None
      then show ?thesis .
    next
      case (Some vals)
      from complete_Some(1) [OF Some f(1)] Cons.prems(3) show ?thesis
        by (simp add: rejected_all_Inr)
    qed
    moreover have "k \<in> set order" using Cons.prems(2,3) f(3) by auto
    ultimately show ?thesis
      using Cons.IH [OF f(1) _ Cons.prems(3)] Inr by auto
  qed
qed

lemma Promise_all_sole_rejection:
  assumes "consistent rs vs" "k \<in> set order" "rejected k rs = Some e"
    and "\<forall>k'. k' \<noteq> k \<longrightarrow> rejected k' rs = None"
  shows "Promise_all order rs vs = Some (Inl e)"
proof -
  from Promise_all_rejects [OF assms(1-3)] obtain k' e' where
    h: "rejected k' rs = Some e'" "Promise_all order rs vs = Some (Inl e')" by blast
  with assms(4) have "k' = k" by (cases "k' = k") auto
  with h assms(3) show ?thesis by simp
qed

lemma Promise_all_fulfils:
  assumes "consistent (Inr w, Inr x, Inr y, Inr z) vs" "filled vs \<noteq> UNIV"
  shows "Promise_all order (Inr w, Inr x, Inr y, Inr z) vs =
           (if filled vs \<union> set order = UNIV then Some (Inr (w, x, y, z)) else None)"
  using assms
proof (induction order arbitrary: vs)
  case Nil
  then show ?case by simp
next
  case (Cons j order)
  let ?rs = "(Inr w, Inr x, Inr y, Inr z)"
  obtain vs' where s: "settle_one j ?rs vs = Inr vs'"
    using settle_one_rejected [of j ?rs vs] rejected_all_Inr [of j w x y z]
    by (cases "settle_one j ?rs vs") auto
  note f = settle_one_fulfilled [OF s Cons.prems(1)]
  show ?case
  proof (cases "complete vs'")
    case None
    then have "filled vs' \<noteq> UNIV" by (simp add: complete_None)
    from Cons.IH [OF f(1) this] s None f(2) show ?thesis by simp
  next
    case (Some vals)
    from complete_Some [OF Some f(1)] have "vals = (w, x, y, z)" "filled vs' = UNIV"
      by (auto simp: prod_eq_iff)
    with s Some f(2) show ?thesis by auto
  qed
qed

lemma Promise_all_fulfilled_only_if:
  assumes "consistent rs vs" "Promise_all order rs vs = Some (Inr vals)"
  shows "(\<forall>k. rejected k rs = None) \<and> filled vs \<union> set order = UNIV"
  using assms
proof (induction order arbitrary: vs)
  case Nil
  then show ?case by simp
next
  case (Cons j order)
  from Cons.prems(2) obtain vs' where s: "settle_one j rs vs = Inr vs'"
    by (cases "settle_one j rs vs") auto
  note f = settle_one_fulfilled [OF s Cons.prems(1)]
  show ?case
  proof (cases "complete vs'")
    case None
    with Cons.prems(2) s have "Promise_all order rs vs' = Some (Inr vals)" by simp
    from Cons.IH [OF f(1) this] f(2) show ?thesis by auto
  next
    case (Some vals')
    from complete_Some [OF Some f(1)] f(2) show ?thesis
      by (auto simp: rejected_all_Inr)
  qed
qed

lemma empty_slots: "consistent rs (None, None, None, None)" "filled (None, None, None, None) \<noteq> UNIV"
proof -
  obtain a b c d where rs: "rs = (a, b, c, d)" by (cases rs) auto
  show "consistent rs (None, None, None, None)" unfolding rs by simp
  show "filled (None, None, None, None) \<noteq> UNIV" by simp
qed

lemma all_fulfilled:
  assumes "\<forall>k. rejected k rs = None"
  shows "\<exists>w x y z. rs = (Inr w, Inr x, Inr y, Inr z)"
proof -
  obtain a b c d where rs: "rs = (a, b, c, d)" by (cases rs) auto
  from assms have "rejected R_summary rs = None" "rejected R_hourly rs = None"
    "rejected R_cost rs = None" "rejected R_assumptions rs = None" by simp_all
  then show ?thesis unfolding rs by (auto split: sum.splits)
qed

lemma api_retrievals_not_null:
  assumes "api_retrievals srv scenarioId = (Inr w, Inr x, Inr y, Inr z)"
    and "\<forall>k. \<not> null_payload papa srv True scenarioId k"
  shows "\<exists>sp hp cp ap. w = Some sp \<and> x = Some hp \<and> y = Some cp \<and> z = Some ap"
proof -
  from assms(2) have "\<not> null_payload papa srv True scenarioId R_summary"
    "\<not> null_payload papa srv True scenarioId R_hourly"
    "\<not> null_payload papa srv True scenarioId R_cost"
    "\<not> null_payload papa srv True scenarioId R_assumptions" by simp_all
  with assms(1) have "w \<noteq> None" "x \<noteq> None" "y \<noteq> None" "z \<noteq> None"
    by (simp_all add: null_payload_def)
  then show ?thesis by auto
qed

lemma static_retrievals_not_null:
  assumes "static_retrievals papa srv scenarioId = (Inr w, Inr x, Inr y, Inr z)"
    and "\<forall>k. \<not> null_payload papa srv False scenarioId k"
  shows "\<exists>sp. w = Some sp"
proof -
  from assms(2) have "\<not> null_payload papa srv False scenarioId R_summary" by simp
  with assms(1) have "w \<noteq> None" by (simp add: null_payload_def)
  then show ?thesis by auto
qed

lemma api_load_publishes:
  assumes "useApiBackend g"
    and "api_retrievals srv scenarioId = (Inr (Some sp), Inr (Some hp), Inr (Some cp), Inr (Some ap))"
  shows "loadScenarioData papa srv g scenarioId order =
           (if set order = UNIV
            then Some (None, g\<lparr>currentScenario := Some (str_or (scenario_id sp) scenarioId),
                                summary := Some sp, hourly := rows_or_empty hp,
                                costRows := rows_or_empty cp,
                                assumptionsRows := rows_or_empty ap\<rparr>)
            else None)"
proof -
  have "Promise_all order (api_retrievals srv scenarioId) (None, None, None, None) =
      (if set order = UNIV then Some (Inr (Some sp, Some hp, Some cp, Some ap)) else None)"
    unfolding assms(2) by (simp add: Promise_all_fulfils [OF empty_slots])
  then show ?thesis
    using assms(1) by (simp add: loadScenarioData_def api_assign_def Let_def)
qed

lemma static_load_publishes:
  assumes "\<not> useApiBackend g"
    and "static_retrievals papa srv scenarioId = (Inr (Some sp), Inr x, Inr y, Inr z)"
  shows "loadScenarioData papa srv g scenarioId order =
           (if set order = UNIV
            then Some (None, g\<lparr>currentScenario := Some scenarioId,
                                summary := Some (sp\<lparr>scenario_id :=
                                   Some (str_or (scenario_id sp) scenarioId)\<rparr>),
                                hourly := x, costRows := y,
                                assumptionsRows := map alias_assumption z\<rparr>)
            else None)"
proof -
  have "Promise_all order (static_retrievals papa srv scenarioId) (None, None, None, None) =
      (if set order = UNIV then Some (Inr (Some sp, x, y, z)) else None)"
    unfolding assms(2) by (simp add: Promise_all_fulfils [OF empty_slots])
  then show ?thesis
    using assms(1) by (simp add: loadScenarioData_def static_assign_def Let_def)
qed

lemma load_publishes:
  assumes "\<forall>k. retrieval_error papa srv use_api scenarioId k = None"
    and "\<forall>k. \<not> null_payload papa srv use_api scenarioId k"
  shows "\<exists>c s h co a. \<forall>g order. useApiBackend g = use_api \<longrightarrow>
           loadScenarioData papa srv g scenarioId order =
             (if set order = UNIV
              then Some (None, g\<lparr>currentScenario := Some c, summary := Some s, hourly := h,
                                  costRows := co, assumptionsRows := a\<rparr>)
              else None)"
proof (cases use_api)
  case True
  with assms(1) have "\<forall>k. rejected k (api_retrievals srv scenarioId) = None"
    by (simp add: retrieval_error_def)
  then obtain w x y z where rs: "api_retrievals srv scenarioId = (Inr w, Inr x, Inr y, Inr z)"
    using all_fulfilled by blast
  from assms(2) True have "\<forall>k. \<not> null_payload papa srv True scenarioId k" by simp
  from api_retrievals_not_null [OF rs this]
  obtain sp hp cp ap where v: "w = Some sp" "x = Some hp" "y = Some cp" "z = Some ap"
    by blast
  have "\<forall>g order. useApiBackend g = use_api \<longrightarrow>
           loadScenarioData papa srv g scenarioId order =
             (if set order = UNIV
              then Some (None, g\<lparr>currentScenario := Some (str_or (scenario_id sp) scenarioId),
                                  summary := Some sp, hourly := rows_or_empty hp,
                                  costRows := rows_or_empty cp,
                                  assumptionsRows := rows_or_empty ap\<rparr>)
              else None)"
    using api_load_publishes [OF _ rs [unfolded v]] True by simp
  then show ?thesis by blast
next
  case False
  with assms(1) have "\<forall>k. rejected k (static_retrievals papa srv scenarioId) = None"
    by (simp add: retrieval_error_def)
  then obtain w x y z where
    rs: "static_retrievals papa srv scenarioId = (Inr w, Inr x, Inr y, Inr z)"
    using all_fulfilled by blast
  from assms(2) False have "\<forall>k. \<not> null_payload papa srv False scenarioId k" by simp
  from static_retrievals_not_null [OF rs this] obtain sp where v: "w = Some sp" by blast
  have "\<forall>g order. useApiBackend g = use_api \<longrightarrow>
           loadScenarioData papa srv g scenarioId order =
             (if set order = UNIV
              then Some (None, g\<lparr>currentScenario := Some scenarioId,
                                  summary := Some (sp\<lparr>scenario_id :=
                                     Some (str_or (scenario_id sp) scenarioId)\<rparr>),
                                  hourly := x, costRows := y,
                                  assumptionsRows := map alias_assumption z\<rparr>)
              else None)"
    using static_load_publishes [OF _ rs [unfolded v]] False by simp
  then show ?thesis by blast
qed

lemma load_rejects:
  assumes "k \<in> set order" "retrieval_error papa srv (useApiBackend g) scenarioId k = Some e"
  shows "\<exists>k' e'. k' \<in> set order
           \<and> retrieval_error papa srv (useApiBackend g) scenarioId k' = Some e'
           \<and> loadScenarioData papa srv g scenarioId order = Some (Some e', g)"
proof (cases "useApiBackend g")
  case True
  with assms(2) have "rejected k (api_retrievals srv scenarioId) = Some e"
    by (simp add: retrieval_error_def)
  from Promise_all_rejects [OF empty_slots(1) assms(1) this] True show ?thesis
    by (auto simp: loadScenarioData_def retrieval_error_def)
next
  case False
  with assms(2) have "rejected k (static_retrievals papa srv scenarioId) = Some e"
    by (simp add: retrieval_error_def)
  from Promise_all_rejects [OF empty_slots(1) assms(1) this] False show ?thesis
    by (auto simp: loadScenarioData_def retrieval_error_def)
qed

lemma load_sole_rejection:
  assumes "k \<in> set order" "retrieval_error papa srv (useApiBackend g) scenarioId k = Some e"
    and "\<forall>k'. k' \<noteq> k \<longrightarrow> retrieval_error papa srv (useApiBackend g) scenarioId k' = None"
  shows "loadScenarioData papa srv g scenarioId order = Some (Some e, g)"
proof -
  from load_rejects [OF assms(1,2)] obtain k' e' where
    h: "retrieval_error papa srv (useApiBackend g) scenarioId k' = Some e'"
       "loadScenarioData papa srv g scenarioId order = Some (Some e', g)" by blast
  with assms(3) have "k' = k" by (cases "k' = k") auto
  with h assms(2) show ?thesis by simp
qed

lemma load_changes_only_if:
  assumes "loadScenarioData papa srv g scenarioId order = Some (thrown, g')" "g' \<noteq> g"
  shows "(\<forall>k. retrieval_error papa srv (useApiBackend g) scenarioId k = None)
       \<and> set order = UNIV"
proof -
  have ok: "\<forall>k. retrieval_error papa srv (useApiBackend g) scenarioId k = None"
  proof (rule ccontr)
    assume "\<not> (\<forall>k. retrieval_error papa srv (useApiBackend g) scenarioId k = None)"
    then obtain k e where ke: "retrieval_error papa srv (useApiBackend g) scenarioId k = Some e"
      by auto
    show False
    proof (cases "useApiBackend g")
      case True
      with ke have r: "rejected k (api_retrievals srv scenarioId) = Some e"
        by (simp add: retrieval_error_def)
      show False
      proof (cases "Promise_all order (api_retrievals srv scenarioId) (None, None, None, None)")
        case None
        with assms(1) True show False by (simp add: loadScenarioData_def)
      next
        case (Some outcome)
        show False
        proof (cases outcome)
          case (Inl e')
          with Some assms True show False by (simp add: loadScenarioData_def)
        next
          case (Inr vals)
          from Promise_all_fulfilled_only_if [OF empty_slots(1) Some [unfolded Inr]] r
          show False by simp
        qed
      qed
    next
      case False
      with ke have r: "rejected k (static_retrievals papa srv scenarioId) = Some e"
        by (simp add: retrieval_error_def)
      show False
      proof (cases "Promise_all order (static_retrievals papa srv scenarioId)
                      (None, None, None, None)")
        case None
        with assms(1) False show False by (simp add: loadScenarioData_def)
      next
        case (Some outcome)
        show False
        proof (cases outcome)
          case (Inl e')
          with Some assms False show False by (simp add: loadScenarioData_def)
        next
          case (Inr vals)
          from Promise_all_fulfilled_only_if [OF empty_slots(1) Some [unfolded Inr]] r
          show False by simp
        qed
      qed
    qed
  qed
  have "set order = UNIV"
  proof (cases "useApiBackend g")
    case True
    with ok have "\<forall>k. rejected k (api_retrievals srv scenarioId) = None"
      by (simp add: retrieval_error_def)
    then obtain w x y z where rs: "api_retrievals srv scenarioId = (Inr w, Inr x, Inr y, Inr z)"
      using all_fulfilled by blast
    have "Promise_all order (api_retrievals srv scenarioId) (None, None, None, None) =
        (if set order = UNIV then Some (Inr (w, x, y, z)) else None)"
      unfolding rs by (simp add: Promise_all_fulfils [OF empty_slots])
    with assms(1) True show ?thesis
      by (cases "set order = UNIV") (simp_all add: loadScenarioData_def)
  next
    case False
    with ok have "\<forall>k. rejected k (static_retrievals papa srv scenarioId) = None"
      by (simp add: retrieval_error_def)
    then obtain w x y z where
      rs: "static_retrievals papa srv scenarioId = (Inr w, Inr x, Inr y, Inr z)"
      using all_fulfilled by blast
    have "Promise_all order (static_retrievals papa srv scenarioId) (None, None, None, None) =
        (if set order = UNIV then Some (Inr (w, x, y, z)) else None)"
      unfolding rs by (simp add: Promise_all_fulfils [OF empty_slots])
    with assms(1) False show ?thesis
      by (cases "set order = UNIV") (simp_all add: loadScenarioData_def)
  qed
  with ok show ?thesis by simp
qed

text \<open>
  C2 does not hold of the code when a retrieval is fulfilled with
  \<^verbatim>\<open>null\<close>. Let the data of "base" be current, with one cost row, and
  let the server hold another cost row for "nf70". In API mode, when the
  hourly request for "nf70" is answered by the JSON literal \<^verbatim>\<open>null\<close>,
  none of the four retrievals rejects, and the load throws after it has
  assigned the current scenario id and the summary of "nf70": the cost rows
  are still those of "base", where the same load with an hourly payload
  assigns those of "nf70". In static mode, when the summary file for "nf70"
  holds \<^verbatim>\<open>null\<close>, no retrieval rejects and the load throws after it has
  assigned the current scenario id alone: the summary and the cost rows are
  still those of "base".
\<close>

theorem null_payload_partial_update:
  "loadScenarioData True
       (\<lambda>sid. (named_store sid)
          \<lparr>api_cost := Body (Some \<lparr>payload_rows = Some [cost ''coal'' ''var_om'' 40]\<rparr>),
           api_hourly := Body None\<rparr>)
       (base_loaded\<lparr>useApiBackend := True\<rparr>) ''nf70''
       [R_summary, R_hourly, R_cost, R_assumptions]
     = Some (Some null_read,
             base_loaded\<lparr>useApiBackend := True, currentScenario := Some ''nf70'',
                           summary := Some (empty_summary\<lparr>scenario_id := Some ''nf70''\<rparr>),
                           costRows := [cost ''solar'' ''capex_annualized'' 60]\<rparr>)
   \<and> map (retrieval_error True
              (\<lambda>sid. (named_store sid)
                 \<lparr>api_cost := Body (Some \<lparr>payload_rows = Some [cost ''coal'' ''var_om'' 40]\<rparr>),
                  api_hourly := Body None\<rparr>)
              True ''nf70'')
       [R_summary, R_hourly, R_cost, R_assumptions]
     = [None, None, None, None]
   \<and> loadScenarioData True
       (\<lambda>sid. (named_store sid)
          \<lparr>api_cost := Body (Some \<lparr>payload_rows = Some [cost ''coal'' ''var_om'' 40]\<rparr>)\<rparr>)
       (base_loaded\<lparr>useApiBackend := True\<rparr>) ''nf70''
       [R_summary, R_hourly, R_cost, R_assumptions]
     = Some (None,
             base_loaded\<lparr>useApiBackend := True, currentScenario := Some ''nf70'',
                           summary := Some (empty_summary\<lparr>scenario_id := Some ''nf70''\<rparr>),
                           costRows := [cost ''coal'' ''var_om'' 40]\<rparr>)
   \<and> loadScenarioData True
       (\<lambda>sid. (named_store sid)
          \<lparr>static_cost := Body [cost ''coal'' ''var_om'' 40], static_summary := Body None\<rparr>)
       base_loaded ''nf70'' [R_summary, R_hourly, R_cost, R_assumptions]
     = Some (Some null_read,
             base_loaded\<lparr>currentScenario := Some ''nf70'',
                           summary := Some (empty_summary\<lparr>scenario_id := Some ''base''\<rparr>),
                           costRows := [cost ''solar'' ''capex_annualized'' 60]\<rparr>)
   \<and> map (retrieval_error True
              (\<lambda>sid. (named_store sid)
                 \<lparr>static_cost := Body [cost ''coal'' ''var_om'' 40], static_summary := Body None\<rparr>)
              False ''nf70'')
       [R_summary, R_hourly, R_cost, R_assumptions]
     = [None, None, None, None]"
  by (simp add: loadScenarioData_def api_retrievals_def api_assign_def static_retrievals_def
      static_assign_def retrieval_error_def named_store_def scenario_store_def base_loaded_def
      initial_globals_def empty_summary_def str_or_def rows_or_empty_def Let_def)

text \<open>
  C1 as stated fails: when the four retrievals of B settle before those of
  A, both loads complete and the current data is that of A, the abandoned
  selection.
\<close>

theorem stale_load_overwrites_newer_selection:
  "currentScenario (globals_of (run True named_store fresh_session
       [Select ''A'', Select ''B'',
        Settle 1 R_summary, Settle 1 R_hourly, Settle 1 R_cost, Settle 1 R_assumptions,
        Settle 0 R_summary, Settle 0 R_hourly, Settle 0 R_cost, Settle 0 R_assumptions]))
     = Some ''A''
   \<and> summary (globals_of (run True named_store fresh_session
       [Select ''A'', Select ''B'',
        Settle 1 R_summary, Settle 1 R_hourly, Settle 1 R_cost, Settle 1 R_assumptions,
        Settle 0 R_summary, Settle 0 R_hourly, Settle 0 R_cost, Settle 0 R_assumptions]))
     = Some (empty_summary\<lparr>scenario_id := Some ''A''\<rparr>)
   \<and> map finished (loads (run True named_store fresh_session
       [Select ''A'', Select ''B'',
        Settle 1 R_summary, Settle 1 R_hourly, Settle 1 R_cost, Settle 1 R_assumptions,
        Settle 0 R_summary, Settle 0 R_hourly, Settle 0 R_cost, Settle 0 R_assumptions]))
     = [True, True]
   \<and> map load_scenario (loads (run True named_store fresh_session
       [Select ''A'', Select ''B'',
        Settle 1 R_summary, Settle 1 R_hourly, Settle 1 R_cost, Settle 1 R_assumptions,
        Settle 0 R_summary, Settle 0 R_hourly, Settle 0 R_cost, Settle 0 R_assumptions]))
     = [''A'', ''B'']"
  by (simp add: run_def fresh_session_def loadScenarioData_def static_retrievals_def
      static_assign_def named_store_def scenario_store_def initial_globals_def
      empty_summary_def str_or_def Let_def)

lemma clear_update:
  "clear (g\<lparr>currentScenario := c, summary := s, hourly := h, costRows := co,
            assumptionsRows := a\<rparr>) = clear g"
  by (simp add: clear_def)

lemma clear_useApiBackend: "clear g' = clear g \<Longrightarrow> useApiBackend g' = useApiBackend g"
proof -
  assume "clear g' = clear g"
  then have "useApiBackend (clear g') = useApiBackend (clear g)" by simp
  then show ?thesis by (simp add: clear_def)
qed

lemma update_after_clear:
  "g\<lparr>currentScenario := c, summary := s, hourly := h, costRows := co, assumptionsRows := a\<rparr>
     = (clear g)\<lparr>currentScenario := c, summary := s, hourly := h, costRows := co,
                 assumptionsRows := a\<rparr>"
  by (simp add: clear_def)

lemma load_same_from_clear:
  assumes ok: "\<forall>k. retrieval_error papa srv (useApiBackend g) scenarioId k = None"
    and nn: "\<forall>k. \<not> null_payload papa srv (useApiBackend g) scenarioId k"
    and cl: "clear g' = clear g" and full: "set order = UNIV" "set order' = UNIV"
    and l: "loadScenarioData papa srv g' scenarioId order' = Some (None, g'')"
  shows "loadScenarioData papa srv g scenarioId order = Some (None, g'')"
proof -
  from load_publishes [OF ok nn] obtain c s h co a where
    p: "\<forall>g1 order1. useApiBackend g1 = useApiBackend g \<longrightarrow>
           loadScenarioData papa srv g1 scenarioId order1 =
             (if set order1 = UNIV
              then Some (None, g1\<lparr>currentScenario := Some c, summary := Some s, hourly := h,
                                  costRows := co, assumptionsRows := a\<rparr>)
              else None)" by blast
  have u: "useApiBackend g' = useApiBackend g" using cl by (rule clear_useApiBackend)
  from p u full l have "g'' = g'\<lparr>currentScenario := Some c, summary := Some s, hourly := h,
                                  costRows := co, assumptionsRows := a\<rparr>" by simp
  then have "g'' = g\<lparr>currentScenario := Some c, summary := Some s, hourly := h,
                                  costRows := co, assumptionsRows := a\<rparr>"
    using update_after_clear [where g = g'] update_after_clear [where g = g] cl by simp
  with p full show ?thesis by simp
qed

lemma dispatch_settle:
  assumes tr: "tracks s T" and he: "healthy papa srv s"
  shows "tracks (dispatch papa srv s (Settle n k)) (T(n := insert k (T n)))"
    and "map load_scenario (loads (dispatch papa srv s (Settle n k))) = map load_scenario (loads s)"
    and "clear (globals_of (dispatch papa srv s (Settle n k))) = clear (globals_of s)"
    and "n < length (loads s) \<and> \<not> finished (loads s ! n) \<and> insert k (T n) = UNIV \<longrightarrow>
           loadScenarioData papa srv (globals_of s) (load_scenario (loads s ! n))
               (settled (loads s ! n) @ [k])
             = Some (None, globals_of (dispatch papa srv s (Settle n k)))"
proof -
  let ?s' = "dispatch papa srv s (Settle n k)"
  let ?ld = "loads s ! n"
  have all: "tracks ?s' (T(n := insert k (T n)))
    \<and> map load_scenario (loads ?s') = map load_scenario (loads s)
    \<and> clear (globals_of ?s') = clear (globals_of s)
    \<and> (n < length (loads s) \<and> \<not> finished ?ld \<and> insert k (T n) = UNIV \<longrightarrow>
           loadScenarioData papa srv (globals_of s) (load_scenario ?ld) (settled ?ld @ [k])
             = Some (None, globals_of ?s'))"
  proof (cases "n < length (loads s) \<and> \<not> finished ?ld")
    case False
    then have same: "?s' = s" by auto
    have "tracks s (T(n := insert k (T n)))"
      unfolding tracks_def
    proof (intro allI impI)
      fix m assume m: "m < length (loads s)"
      show "(finished (loads s ! m) \<longleftrightarrow> (T(n := insert k (T n))) m = UNIV)
        \<and> (\<not> finished (loads s ! m) \<longrightarrow> set (settled (loads s ! m)) = (T(n := insert k (T n))) m)"
      proof (cases "m = n")
        case True
        with m False have f: "finished (loads s ! n)" by simp
        with tr m True have "T n = UNIV" by (simp add: tracks_def)
        with f True show ?thesis by simp
      next
        case neq: False
        with tr m show ?thesis by (simp add: tracks_def)
      qed
    qed
    then show ?thesis unfolding same using False by blast
  next
    case True
    then have n: "n < length (loads s)" and nf: "\<not> finished ?ld" by simp_all
    from tr n nf have Tn: "set (settled ?ld) = T n" "T n \<noteq> UNIV" by (simp_all add: tracks_def)
    from he n have "\<forall>k. retrieval_error papa srv (useApiBackend (globals_of s))
        (load_scenario ?ld) k = None"
      and "\<forall>k. \<not> null_payload papa srv (useApiBackend (globals_of s))
        (load_scenario ?ld) k" by (simp_all add: healthy_def)
    from load_publishes [OF this] obtain c sm h co a where
      p: "\<forall>order. loadScenarioData papa srv (globals_of s) (load_scenario ?ld) order =
             (if set order = UNIV
              then Some (None, (globals_of s)\<lparr>currentScenario := Some c, summary := Some sm,
                                  hourly := h, costRows := co, assumptionsRows := a\<rparr>)
              else None)" by blast
    have so: "set (settled ?ld @ [k]) = insert k (T n)" using Tn by simp
    show ?thesis
    proof (cases "insert k (T n) = UNIV")
      case full: True
      have l: "loadScenarioData papa srv (globals_of s) (load_scenario ?ld) (settled ?ld @ [k])
          = Some (None, (globals_of s)\<lparr>currentScenario := Some c, summary := Some sm,
                                  hourly := h, costRows := co, assumptionsRows := a\<rparr>)"
        using p so full by simp
      then have s': "?s' = s\<lparr>globals_of := (globals_of s)\<lparr>currentScenario := Some c,
                 summary := Some sm, hourly := h, costRows := co, assumptionsRows := a\<rparr>,
               loads := (loads s)[n := ?ld\<lparr>settled := settled ?ld @ [k], finished := True\<rparr>],
               surfaced := surfaced s\<rparr>"
        using True by (simp add: Let_def)
      have "tracks ?s' (T(n := insert k (T n)))"
        unfolding tracks_def
      proof (intro allI impI)
        fix m assume m: "m < length (loads ?s')"
        then have m': "m < length (loads s)" unfolding s' by simp
        show "(finished (loads ?s' ! m) \<longleftrightarrow> (T(n := insert k (T n))) m = UNIV)
          \<and> (\<not> finished (loads ?s' ! m) \<longrightarrow>
               set (settled (loads ?s' ! m)) = (T(n := insert k (T n))) m)"
        proof (cases "m = n")
          case True
          with n full show ?thesis unfolding s' by simp
        next
          case False
          with tr m' show ?thesis unfolding s' by (simp add: tracks_def)
        qed
      qed
      moreover have "map load_scenario (loads ?s') = map load_scenario (loads s)"
        unfolding s' using n by (simp add: map_update list_update_same_conv)
      moreover have "clear (globals_of ?s') = clear (globals_of s)"
        unfolding s' by (simp add: clear_update)
      moreover have "loadScenarioData papa srv (globals_of s) (load_scenario ?ld)
          (settled ?ld @ [k]) = Some (None, globals_of ?s')"
        using l unfolding s' by simp
      ultimately show ?thesis by blast
    next
      case part: False
      have l: "loadScenarioData papa srv (globals_of s) (load_scenario ?ld) (settled ?ld @ [k])
          = None"
        using p so part by simp
      then have s': "?s' = s\<lparr>loads := (loads s)[n := ?ld\<lparr>settled := settled ?ld @ [k]\<rparr>]\<rparr>"
        using True by (simp add: Let_def)
      have "tracks ?s' (T(n := insert k (T n)))"
        unfolding tracks_def
      proof (intro allI impI)
        fix m assume m: "m < length (loads ?s')"
        then have m': "m < length (loads s)" unfolding s' by simp
        show "(finished (loads ?s' ! m) \<longleftrightarrow> (T(n := insert k (T n))) m = UNIV)
          \<and> (\<not> finished (loads ?s' ! m) \<longrightarrow>
               set (settled (loads ?s' ! m)) = (T(n := insert k (T n))) m)"
        proof (cases "m = n")
          case True
          with n part nf so show ?thesis unfolding s' by simp
        next
          case False
          with tr m' show ?thesis unfolding s' by (simp add: tracks_def)
        qed
      qed
      moreover have "map load_scenario (loads ?s') = map load_scenario (loads s)"
        unfolding s' using n by (simp add: map_update list_update_same_conv)
      moreover have "clear (globals_of ?s') = clear (globals_of s)"
        unfolding s' by simp
      ultimately show ?thesis using part by blast
    qed
  qed
  from all show "tracks ?s' (T(n := insert k (T n)))" by blast
  from all show "map load_scenario (loads ?s') = map load_scenario (loads s)" by blast
  from all show "clear (globals_of ?s') = clear (globals_of s)" by blast
  from all show "n < length (loads s) \<and> \<not> finished ?ld \<and> insert k (T n) = UNIV \<longrightarrow>
           loadScenarioData papa srv (globals_of s) (load_scenario ?ld) (settled ?ld @ [k])
             = Some (None, globals_of ?s')" by blast
qed

lemma healthy_preserved:
  assumes "healthy papa srv s" "map load_scenario (loads s') = map load_scenario (loads s)"
    "clear (globals_of s') = clear (globals_of s)"
  shows "healthy papa srv s'"
proof -
  have len: "length (loads s') = length (loads s)" using assms(2) by (metis length_map)
  have "\<And>n. n < length (loads s) \<Longrightarrow> load_scenario (loads s' ! n) = load_scenario (loads s ! n)"
    using assms(2) len by (metis nth_map)
  moreover have "useApiBackend (globals_of s') = useApiBackend (globals_of s)"
    using assms(3) by (rule clear_useApiBackend)
  ultimately show ?thesis using assms(1) len by (simp add: healthy_def)
qed

lemma run_settles:
  assumes "tracks s T" "healthy papa srv s" "\<forall>e \<in> set es. \<exists>n k. e = Settle n k"
  shows "tracks (run papa srv s es) (\<lambda>n. T n \<union> {k. Settle n k \<in> set es})
       \<and> map load_scenario (loads (run papa srv s es)) = map load_scenario (loads s)
       \<and> clear (globals_of (run papa srv s es)) = clear (globals_of s)"
  using assms
proof (induction es arbitrary: s T)
  case Nil
  then show ?case by (simp add: run_def)
next
  case (Cons e es)
  from Cons.prems(3) obtain n k where e: "e = Settle n k" by auto
  let ?s' = "dispatch papa srv s (Settle n k)"
  note st = dispatch_settle [OF Cons.prems(1,2), of n k]
  have h': "healthy papa srv ?s'" using healthy_preserved [OF Cons.prems(2) st(2) st(3)] .
  have rest: "\<forall>e \<in> set es. \<exists>n k. e = Settle n k" using Cons.prems(3) by simp
  from Cons.IH [OF st(1) h' rest]
  have ih: "tracks (run papa srv ?s' es) (\<lambda>m. (T(n := insert k (T n))) m \<union> {k. Settle m k \<in> set es})"
    "map load_scenario (loads (run papa srv ?s' es)) = map load_scenario (loads ?s')"
    "clear (globals_of (run papa srv ?s' es)) = clear (globals_of ?s')" by simp_all
  have T: "(\<lambda>m. (T(n := insert k (T n))) m \<union> {k. Settle m k \<in> set es})
      = (\<lambda>m. T m \<union> {k'. Settle m k' \<in> set (e # es)})"
    unfolding e by (rule ext) auto
  have r: "run papa srv s (e # es) = run papa srv ?s' es" unfolding e by (simp add: run_def)
  show ?case unfolding r using ih st(2,3) unfolding T by simp
qed

lemma empty_not_UNIV_retrieval: "({} :: retrieval set) \<noteq> UNIV"
  by (simp add: UNIV_retrieval)

lemma full_order: "set [R_summary, R_hourly, R_cost, R_assumptions] = UNIV"
  by (simp add: UNIV_retrieval)

lemma run_snoc: "run papa srv s (es @ [e]) = dispatch papa srv (run papa srv s es) e"
  by (simp add: run_def)

lemma run_select_between:
  "run papa srv s (Select A # es1 @ Select B # es2)
     = run papa srv (dispatch papa srv (run papa srv (dispatch papa srv s (Select A)) es1) (Select B)) es2"
  by (simp add: run_def)

lemma last_settle_publishes:
  assumes tr: "tracks s T" and he: "healthy papa srv s"
    and es: "\<forall>e \<in> set es. \<exists>n k. e = Settle n k"
    and n: "n < length (loads s)"
    and fresh: "k \<notin> T n \<union> {k'. Settle n k' \<in> set es}"
    and ins: "insert k (T n \<union> {k'. Settle n k' \<in> set es}) = UNIV"
    and ok: "\<forall>k. retrieval_error papa srv (useApiBackend g0) (load_scenario (loads s ! n)) k = None"
    and nn: "\<forall>k. \<not> null_payload papa srv (useApiBackend g0) (load_scenario (loads s ! n)) k"
    and cl: "clear (globals_of s) = clear g0"
    and full: "set order = UNIV"
  shows "loadScenarioData papa srv g0 (load_scenario (loads s ! n)) order
           = Some (None, globals_of (run papa srv s (es @ [Settle n k])))"
    and "tracks (run papa srv s (es @ [Settle n k]))
           (\<lambda>m. T m \<union> {k'. Settle m k' \<in> set (es @ [Settle n k])})"
    and "map load_scenario (loads (run papa srv s (es @ [Settle n k])))
           = map load_scenario (loads s)"
proof -
  let ?s' = "run papa srv s es"
  let ?T' = "\<lambda>m. T m \<union> {k'. Settle m k' \<in> set es}"
  from run_settles [OF tr he es]
  have t': "tracks ?s' ?T'"
    and l': "map load_scenario (loads ?s') = map load_scenario (loads s)"
    and c': "clear (globals_of ?s') = clear (globals_of s)" by simp_all
  have len': "length (loads ?s') = length (loads s)"
  proof -
    have "length (map load_scenario (loads ?s')) = length (map load_scenario (loads s))"
      by (simp only: l')
    then show ?thesis by simp
  qed
  have h': "healthy papa srv ?s'" by (rule healthy_preserved [OF he l' c'])
  have nlen: "n < length (loads ?s')" using n len' by simp
  have scen: "load_scenario (loads ?s' ! n) = load_scenario (loads s ! n)"
  proof -
    have "map load_scenario (loads ?s') ! n = map load_scenario (loads s) ! n" by (simp only: l')
    then show ?thesis using n nlen by simp
  qed
  note st = dispatch_settle [OF t' h', of n k]
  from fresh have "?T' n \<noteq> UNIV" by blast
  with t' nlen have nf: "\<not> finished (loads ?s' ! n)" by (simp add: tracks_def)
  from st(4) nlen nf ins
  have pub: "loadScenarioData papa srv (globals_of ?s') (load_scenario (loads ?s' ! n))
      (settled (loads ?s' ! n) @ [k]) = Some (None, globals_of (dispatch papa srv ?s' (Settle n k)))"
    by blast
  have ord: "set (settled (loads ?s' ! n) @ [k]) = UNIV"
  proof -
    from t' nlen nf have "set (settled (loads ?s' ! n)) = ?T' n" by (simp add: tracks_def)
    with ins show ?thesis by simp
  qed
  have cg: "clear (globals_of ?s') = clear g0" using c' cl by simp
  from load_same_from_clear [OF ok nn cg full ord pub [unfolded scen]]
  show "loadScenarioData papa srv g0 (load_scenario (loads s ! n)) order
           = Some (None, globals_of (run papa srv s (es @ [Settle n k])))"
    by (simp only: run_snoc)
  have "(\<lambda>m. T m \<union> {k'. Settle m k' \<in> set (es @ [Settle n k])}) = ?T'(n := insert k (?T' n))"
    by (rule ext) auto
  with st(1) show "tracks (run papa srv s (es @ [Settle n k]))
           (\<lambda>m. T m \<union> {k'. Settle m k' \<in> set (es @ [Settle n k])})"
    by (simp only: run_snoc)
  from st(2) l' show "map load_scenario (loads (run papa srv s (es @ [Settle n k])))
           = map load_scenario (loads s)"
    by (simp only: run_snoc)
qed

lemma two_loads_in_flight:
  assumes okA: "\<forall>k. retrieval_error papa srv (useApiBackend g0) A k = None"
    and okB: "\<forall>k. retrieval_error papa srv (useApiBackend g0) B k = None"
    and nnA: "\<forall>k. \<not> null_payload papa srv (useApiBackend g0) A k"
    and nnB: "\<forall>k. \<not> null_payload papa srv (useApiBackend g0) B k"
    and es1: "set es1 \<subseteq> range (Settle 0)"
  shows "tracks (dispatch papa srv (run papa srv (dispatch papa srv
                   \<lparr>globals_of = g0, loads = [], surfaced = []\<rparr> (Select A)) es1) (Select B))
           (\<lambda>n. {k. Settle n k \<in> set es1})"
    and "healthy papa srv (dispatch papa srv (run papa srv (dispatch papa srv
                   \<lparr>globals_of = g0, loads = [], surfaced = []\<rparr> (Select A)) es1) (Select B))"
    and "map load_scenario (loads (dispatch papa srv (run papa srv (dispatch papa srv
                   \<lparr>globals_of = g0, loads = [], surfaced = []\<rparr> (Select A)) es1) (Select B)))
           = [A, B]"
    and "clear (globals_of (dispatch papa srv (run papa srv (dispatch papa srv
                   \<lparr>globals_of = g0, loads = [], surfaced = []\<rparr> (Select A)) es1) (Select B)))
           = clear g0"
proof -
  define s1 where "s1 = \<lparr>globals_of = g0,
      loads = [\<lparr>load_scenario = A, settled = [], finished = False\<rparr>], surfaced = []\<rparr>"
  define sA where "sA = run papa srv s1 es1"
  define sB where "sB = sA\<lparr>loads := loads sA @ [\<lparr>load_scenario = B, settled = [], finished = False\<rparr>]\<rparr>"
  have step1: "dispatch papa srv \<lparr>globals_of = g0, loads = [], surfaced = []\<rparr> (Select A) = s1"
    by (simp add: s1_def)
  have stepB: "dispatch papa srv sA (Select B) = sB" by (simp add: sB_def)
  have t1: "tracks s1 (\<lambda>n. {})"
    by (simp add: s1_def tracks_def empty_not_UNIV_retrieval)
  have h1: "healthy papa srv s1" using okA nnA by (simp add: s1_def healthy_def)
  have e1: "\<forall>e \<in> set es1. \<exists>n k. e = Settle n k" using es1 by auto
  from run_settles [OF t1 h1 e1]
  have tA: "tracks sA (\<lambda>n. {k. Settle n k \<in> set es1})"
    and lA: "map load_scenario (loads sA) = [A]"
    and cA: "clear (globals_of sA) = clear g0" by (simp_all add: sA_def s1_def)
  from lA obtain a where a: "loads sA = [a]" "load_scenario a = A" by auto
  have no1: "{k. Settle (Suc 0) k \<in> set es1} = {}" using es1 by auto
  have loadsB: "loads sB = [a, \<lparr>load_scenario = B, settled = [], finished = False\<rparr>]"
    by (simp add: sB_def a)
  have gB: "globals_of sB = globals_of sA" by (simp add: sB_def)
  have tB: "tracks sB (\<lambda>n. {k. Settle n k \<in> set es1})"
    unfolding tracks_def
  proof (intro allI impI)
    fix m assume "m < length (loads sB)"
    then have "m = 0 \<or> m = Suc 0" unfolding loadsB by auto
    then show "(finished (loads sB ! m) \<longleftrightarrow> {k. Settle m k \<in> set es1} = UNIV)
        \<and> (\<not> finished (loads sB ! m) \<longrightarrow> set (settled (loads sB ! m)) = {k. Settle m k \<in> set es1})"
    proof
      assume m: "m = 0"
      from tA a have "(finished a \<longleftrightarrow> {k. Settle 0 k \<in> set es1} = UNIV)
        \<and> (\<not> finished a \<longrightarrow> set (settled a) = {k. Settle 0 k \<in> set es1})"
        by (simp add: tracks_def)
      with m show ?thesis unfolding loadsB by simp
    next
      assume m: "m = Suc 0"
      with no1 show ?thesis unfolding loadsB by (simp add: empty_not_UNIV_retrieval)
    qed
  qed
  have cB: "clear (globals_of sB) = clear g0" using cA gB by simp
  have uB: "useApiBackend (globals_of sB) = useApiBackend g0"
    using cB by (rule clear_useApiBackend)
  have hB: "healthy papa srv sB"
    unfolding healthy_def
  proof (intro allI impI)
    fix m k assume "m < length (loads sB)"
    then have "m = 0 \<or> m = Suc 0" unfolding loadsB by auto
    then show "retrieval_error papa srv (useApiBackend (globals_of sB))
        (load_scenario (loads sB ! m)) k = None
      \<and> \<not> null_payload papa srv (useApiBackend (globals_of sB))
            (load_scenario (loads sB ! m)) k"
      unfolding loadsB uB using okA okB nnA nnB a by auto
  qed
  have lB: "map load_scenario (loads sB) = [A, B]" unfolding loadsB using a by simp
  have whole: "dispatch papa srv (run papa srv (dispatch papa srv
                   \<lparr>globals_of = g0, loads = [], surfaced = []\<rparr> (Select A)) es1) (Select B) = sB"
    unfolding step1 using stepB by (simp add: sA_def)
  show "tracks (dispatch papa srv (run papa srv (dispatch papa srv
                   \<lparr>globals_of = g0, loads = [], surfaced = []\<rparr> (Select A)) es1) (Select B))
           (\<lambda>n. {k. Settle n k \<in> set es1})" unfolding whole by (rule tB)
  show "healthy papa srv (dispatch papa srv (run papa srv (dispatch papa srv
                   \<lparr>globals_of = g0, loads = [], surfaced = []\<rparr> (Select A)) es1) (Select B))"
    unfolding whole by (rule hB)
  show "map load_scenario (loads (dispatch papa srv (run papa srv (dispatch papa srv
                   \<lparr>globals_of = g0, loads = [], surfaced = []\<rparr> (Select A)) es1) (Select B)))
           = [A, B]" unfolding whole by (rule lB)
  show "clear (globals_of (dispatch papa srv (run papa srv (dispatch papa srv
                   \<lparr>globals_of = g0, loads = [], surfaced = []\<rparr> (Select A)) es1) (Select B)))
           = clear g0" unfolding whole by (rule cB)
qed

text \<open>
  C1, as amended. Let a load for A be initiated, some but not all of its
  retrievals settle, a load for B be initiated, and the remaining retrievals
  of both settle in any order, each once, all successfully and none with a
  null payload. Then both loads
  complete, and the globals at the end are those that one load alone
  publishes, never a mix: those of A when the last retrieval to settle is
  one of A, those of B otherwise.
\<close>

theorem last_completed_load_wins:
  assumes okA: "\<forall>k. retrieval_error papa srv (useApiBackend g0) A k = None"
    and okB: "\<forall>k. retrieval_error papa srv (useApiBackend g0) B k = None"
    and nnA: "\<forall>k. \<not> null_payload papa srv (useApiBackend g0) A k"
    and nnB: "\<forall>k. \<not> null_payload papa srv (useApiBackend g0) B k"
    and es1: "set es1 \<subseteq> range (Settle 0)" "{k. Settle 0 k \<in> set es1} \<noteq> UNIV"
    and es2: "set es2 \<subseteq> range (Settle 0) \<union> range (Settle 1)"
    and allA: "{k. Settle 0 k \<in> set (es1 @ es2)} = UNIV"
    and allB: "{k. Settle 1 k \<in> set es2} = UNIV"
    and once: "distinct (es1 @ es2)"
  shows "\<exists>gA gB.
           loadScenarioData papa srv g0 A [R_summary, R_hourly, R_cost, R_assumptions]
             = Some (None, gA)
         \<and> loadScenarioData papa srv g0 B [R_summary, R_hourly, R_cost, R_assumptions]
             = Some (None, gB)
         \<and> globals_of (run papa srv \<lparr>globals_of = g0, loads = [], surfaced = []\<rparr>
                         (Select A # es1 @ Select B # es2))
             = (if \<exists>k. last es2 = Settle 0 k then gA else gB)
         \<and> map finished (loads (run papa srv \<lparr>globals_of = g0, loads = [], surfaced = []\<rparr>
                                   (Select A # es1 @ Select B # es2)))
             = [True, True]"
proof -
  define sB where "sB = dispatch papa srv (run papa srv (dispatch papa srv
       \<lparr>globals_of = g0, loads = [], surfaced = []\<rparr> (Select A)) es1) (Select B)"
  define final where "final = run papa srv sB es2"
  define T where "T = (\<lambda>n. {k. Settle n k \<in> set es1})"
  have whole: "run papa srv \<lparr>globals_of = g0, loads = [], surfaced = []\<rparr>
      (Select A # es1 @ Select B # es2) = final"
    unfolding final_def sB_def by (rule run_select_between)
  note inflight = two_loads_in_flight [OF okA okB nnA nnB es1(1), folded sB_def T_def]
  have lB: "map load_scenario (loads sB) = [A, B]" by (rule inflight(3))
  then obtain a b where ab: "loads sB = [a, b]" "load_scenario a = A" "load_scenario b = B"
    by auto
  have "es2 \<noteq> []" using allB by auto
  then obtain es2' e where es2': "es2 = es2' @ [e]" by (cases es2 rule: rev_cases) auto
  with es2 obtain n k where e: "e = Settle n k" and n: "n = 0 \<or> n = Suc 0" by auto
  have settles: "\<forall>e \<in> set es2'. \<exists>n k. e = Settle n k" using es2 es2' by auto
  have nlen: "n < length (loads sB)" using n ab by auto
  have T1: "T (Suc 0) = {}" unfolding T_def using es1(1) by auto
  have covered: "T m \<union> {k'. Settle m k' \<in> set es2} = UNIV" if "m = 0 \<or> m = Suc 0" for m
    using that
  proof
    assume "m = 0"
    with allA show ?thesis unfolding T_def by auto
  next
    assume "m = Suc 0"
    with allB T1 show ?thesis by simp
  qed
  have fresh: "k \<notin> T n \<union> {k'. Settle n k' \<in> set es2'}"
    using once unfolding es2' e T_def by auto
  have ins: "insert k (T n \<union> {k'. Settle n k' \<in> set es2'}) = UNIV"
  proof -
    have "insert k (T n \<union> {k'. Settle n k' \<in> set es2'}) = T n \<union> {k'. Settle n k' \<in> set es2}"
      unfolding es2' e by auto
    with covered [OF n] show ?thesis by simp
  qed
  have scen: "load_scenario (loads sB ! n) = (if n = 0 then A else B)"
    using n ab by auto
  have ok: "\<forall>k. retrieval_error papa srv (useApiBackend g0) (load_scenario (loads sB ! n)) k = None"
    unfolding scen using okA okB by simp
  have nn: "\<forall>k. \<not> null_payload papa srv (useApiBackend g0) (load_scenario (loads sB ! n)) k"
    unfolding scen using nnA nnB by simp
  note last = last_settle_publishes [OF inflight(1) inflight(2) settles nlen fresh ins ok nn
      inflight(4) full_order, folded es2' e final_def]
  have result: "loadScenarioData papa srv g0 (if n = 0 then A else B)
      [R_summary, R_hourly, R_cost, R_assumptions] = Some (None, globals_of final)"
    using last(1) unfolding e es2' scen final_def by simp
  from load_publishes [OF okA nnA] full_order obtain gA where
    gA: "loadScenarioData papa srv g0 A [R_summary, R_hourly, R_cost, R_assumptions]
           = Some (None, gA)" by auto
  from load_publishes [OF okB nnB] full_order obtain gB where
    gB: "loadScenarioData papa srv g0 B [R_summary, R_hourly, R_cost, R_assumptions]
           = Some (None, gB)" by auto
  have lastev: "(\<exists>k'. last es2 = Settle 0 k') \<longleftrightarrow> n = 0" unfolding es2' e by auto
  have glob: "globals_of final = (if \<exists>k. last es2 = Settle 0 k then gA else gB)"
    using result gA gB lastev by (cases "n = 0") simp_all
  have tracked: "tracks final (\<lambda>m. T m \<union> {k'. Settle m k' \<in> set es2})"
    using last(2) unfolding e es2' final_def by simp
  have lf: "map load_scenario (loads final) = [A, B]"
    using last(3) lB unfolding e es2' final_def by simp
  then obtain a' b' where ab': "loads final = [a', b']" by auto
  have "finished (loads final ! 0)" "finished (loads final ! Suc 0)"
    using tracked ab' covered [of 0] covered [of "Suc 0"] unfolding tracks_def by force+
  with ab' have fin: "map finished (loads final) = [True, True]" by simp
  show ?thesis unfolding whole
    by (intro exI conjI) (fact gA, fact gB, fact glob, fact fin)
qed

theorem last_completed_load_wins_witness:
  "currentScenario (globals_of (run True named_store fresh_session
       (Select ''A'' # [Settle 0 R_summary] @ Select ''B'' #
        [Settle 0 R_hourly, Settle 1 R_summary, Settle 0 R_cost, Settle 0 R_assumptions,
         Settle 1 R_hourly, Settle 1 R_cost, Settle 1 R_assumptions])))
     = Some ''B''
   \<and> currentScenario (globals_of (run True named_store fresh_session
       (Select ''A'' # [Settle 0 R_summary] @ Select ''B'' #
        [Settle 1 R_hourly, Settle 1 R_summary, Settle 1 R_cost, Settle 0 R_assumptions,
         Settle 0 R_hourly, Settle 1 R_assumptions, Settle 0 R_cost])))
     = Some ''A''"
proof -
  let ?es1 = "[Settle 0 R_summary]"
  let ?late_B = "[Settle 0 R_hourly, Settle 1 R_summary, Settle 0 R_cost, Settle 0 R_assumptions,
         Settle 1 R_hourly, Settle 1 R_cost, Settle 1 R_assumptions]"
  let ?late_A = "[Settle 1 R_hourly, Settle 1 R_summary, Settle 1 R_cost, Settle 0 R_assumptions,
         Settle 0 R_hourly, Settle 1 R_assumptions, Settle 0 R_cost]"
  have ok: "\<forall>k. retrieval_error True named_store (useApiBackend initial_globals) sid k = None"
    for sid
  proof
    fix k
    show "retrieval_error True named_store (useApiBackend initial_globals) sid k = None"
      by (cases k)
         (simp_all add: retrieval_error_def initial_globals_def static_retrievals_def
            named_store_def scenario_store_def Let_def)
  qed
  have nn: "\<forall>k. \<not> null_payload True named_store (useApiBackend initial_globals) sid k"
    for sid
  proof
    fix k
    show "\<not> null_payload True named_store (useApiBackend initial_globals) sid k"
      by (cases k)
         (simp_all add: null_payload_def initial_globals_def static_retrievals_def
            named_store_def scenario_store_def Let_def)
  qed
  have e1: "set ?es1 \<subseteq> range (Settle 0)" by simp
  have part: "{k. Settle 0 k \<in> set ?es1} \<noteq> UNIV"
  proof
    assume "{k. Settle 0 k \<in> set ?es1} = UNIV"
    then have "R_hourly \<in> {k. Settle 0 k \<in> set ?es1}" by (simp only: UNIV_I)
    then show False by simp
  qed
  have e2B: "set ?late_B \<subseteq> range (Settle 0) \<union> range (Settle 1)" by simp
  have e2A: "set ?late_A \<subseteq> range (Settle 0) \<union> range (Settle 1)" by simp
  have allB_A: "{k. Settle 0 k \<in> set (?es1 @ ?late_B)} = UNIV"
  proof -
    have "\<And>k. Settle 0 k \<in> set (?es1 @ ?late_B)"
    proof -
      fix k show "Settle 0 k \<in> set (?es1 @ ?late_B)" by (cases k) simp_all
    qed
    then show ?thesis by blast
  qed
  have allB_B: "{k. Settle 1 k \<in> set ?late_B} = UNIV"
  proof -
    have "\<And>k. Settle 1 k \<in> set ?late_B"
    proof -
      fix k show "Settle 1 k \<in> set ?late_B" by (cases k) simp_all
    qed
    then show ?thesis by blast
  qed
  have allA_A: "{k. Settle 0 k \<in> set (?es1 @ ?late_A)} = UNIV"
  proof -
    have "\<And>k. Settle 0 k \<in> set (?es1 @ ?late_A)"
    proof -
      fix k show "Settle 0 k \<in> set (?es1 @ ?late_A)" by (cases k) simp_all
    qed
    then show ?thesis by blast
  qed
  have allA_B: "{k. Settle 1 k \<in> set ?late_A} = UNIV"
  proof -
    have "\<And>k. Settle 1 k \<in> set ?late_A"
    proof -
      fix k show "Settle 1 k \<in> set ?late_A" by (cases k) simp_all
    qed
    then show ?thesis by blast
  qed
  have dB: "distinct (?es1 @ ?late_B)" by simp
  have dA: "distinct (?es1 @ ?late_A)" by simp
  have loadA: "loadScenarioData True named_store initial_globals ''A''
      [R_summary, R_hourly, R_cost, R_assumptions]
    = Some (None, initial_globals\<lparr>currentScenario := Some ''A'',
                summary := Some (empty_summary\<lparr>scenario_id := Some ''A''\<rparr>)\<rparr>)"
    by (simp add: loadScenarioData_def static_retrievals_def static_assign_def named_store_def
      scenario_store_def initial_globals_def empty_summary_def str_or_def Let_def)
  have loadB: "loadScenarioData True named_store initial_globals ''B''
      [R_summary, R_hourly, R_cost, R_assumptions]
    = Some (None, initial_globals\<lparr>currentScenario := Some ''B'',
                summary := Some (empty_summary\<lparr>scenario_id := Some ''B''\<rparr>)\<rparr>)"
    by (simp add: loadScenarioData_def static_retrievals_def static_assign_def named_store_def
      scenario_store_def initial_globals_def empty_summary_def str_or_def Let_def)
  from last_completed_load_wins [OF ok ok nn nn e1 part e2B allB_A allB_B dB, of "''A''" "''B''"]
    loadA loadB
  have first: "currentScenario (globals_of (run True named_store fresh_session
       (Select ''A'' # ?es1 @ Select ''B'' # ?late_B))) = Some ''B''"
    unfolding fresh_session_def by auto
  from last_completed_load_wins [OF ok ok nn nn e1 part e2A allA_A allA_B dA, of "''A''" "''B''"]
    loadA loadB
  have second: "currentScenario (globals_of (run True named_store fresh_session
       (Select ''A'' # ?es1 @ Select ''B'' # ?late_A))) = Some ''A''"
    unfolding fresh_session_def by auto
  from first second show ?thesis by (rule conjI)
qed

end
